theory Spec2Isabelle
  imports Complex_Main "HOL-Library.Extended_Nat"
begin

text \<open>
  deep-c is a C library for small fully-connected networks (\<^verbatim>\<open>mlpc\<close>) and for the DDPG
  reinforcement-learning agent built on them (\<^verbatim>\<open>ddpgc\<close>). The first part of this theory
  translates the C functions into functions of HOL, file by file and under their own
  names: a function that writes through a pointer returns the structure it has written,
  and a \<^verbatim>\<open>for\<close> loop is a \<open>fold\<close> over the range of its counter. The second part proves
  properties of these functions.
\<close>

section \<open>Matrix (matrix.h, matrix.c)\<close>

text \<open>
  The C struct \<^verbatim>\<open>Matrix\<close> holds the shape and a pointer to a row-major buffer on the
  heap. The buffer is modelled by the list of its cells. Shapes, sizes and indices are C
  \<^verbatim>\<open>int\<close>s that are never negative in a constructed object; they are natural numbers
  here, and signed overflow (undefined in C) is not modelled. The cell type is a
  parameter of the record: the matrix code only adds, multiplies and divides cells, so
  the structural functions are stated for any type that has these operations, with no
  algebraic law assumed of them. The networks instantiate the cell type with
  \<open>double\<close>. A finite value of the C type is a real number, and \<open>double\<close> is the type
  of the reals: NaN and the infinities are not modelled, and \<open>x / 0 = 0\<close>. The matrix,
  network, optimiser and agent code combines cells with the exact operations of the
  reals; the properties proved of it say which cells are read and written and which
  expression is applied to them. The scalar functions of \<^verbatim>\<open>random.c\<close> and
  \<^verbatim>\<open>activation.c\<close> are modelled with the rounded operations of the section on double
  arithmetic, because what is proved of them depends on the rounding.
\<close>

type_synonym double = real

record 'a Matrix =
  rows :: nat
  columns :: nat
  data :: "'a list"

text \<open>The macro \<^verbatim>\<open>MATRIX(matrix, row, col)\<close>, read as an rvalue.\<close>

definition MATRIX :: "'a Matrix \<Rightarrow> nat \<Rightarrow> nat \<Rightarrow> 'a" where
  "MATRIX matrix row col = data matrix ! (row * columns matrix + col)"

text \<open>The same macro used as the target of an assignment.\<close>

definition MATRIX_assign :: "'a Matrix \<Rightarrow> nat \<Rightarrow> nat \<Rightarrow> 'a \<Rightarrow> 'a Matrix" where
  "MATRIX_assign matrix row col v =
     matrix\<lparr>data := (data matrix)[row * columns matrix + col := v]\<rparr>"

text \<open>
  \<^verbatim>\<open>matrix_clone\<close> allocates a buffer of \<open>rows * columns\<close> cells and fills it from the
  source in a loop.
\<close>

definition matrix_clone :: "'a Matrix \<Rightarrow> 'a Matrix" where
  "matrix_clone matrix =
     \<lparr>rows = rows matrix, columns = columns matrix,
      data = map (\<lambda>i. data matrix ! i) [0..<rows matrix * columns matrix]\<rparr>"

definition matrix_clear :: "'a::zero Matrix \<Rightarrow> 'a Matrix" where
  "matrix_clear matrix =
     matrix\<lparr>data := fold (\<lambda>i d. d[i := 0]) [0..<rows matrix * columns matrix] (data matrix)\<rparr>"

definition matrix_copy :: "'a Matrix \<Rightarrow> 'a Matrix \<Rightarrow> 'a Matrix" where
  "matrix_copy dst src =
     dst\<lparr>data := fold (\<lambda>i d. d[i := data src ! i]) [0..<rows dst * columns dst] (data dst)\<rparr>"

definition matrix_fill :: "'a Matrix \<Rightarrow> 'a \<Rightarrow> 'a Matrix" where
  "matrix_fill matrix v =
     matrix\<lparr>data := fold (\<lambda>i d. d[i := v]) [0..<rows matrix * columns matrix] (data matrix)\<rparr>"

definition matrix_add :: "'a::plus Matrix \<Rightarrow> 'a Matrix \<Rightarrow> 'a Matrix" where
  "matrix_add dst src =
     dst\<lparr>data := fold (\<lambda>i d. d[i := d ! i + data src ! i])
                     [0..<rows dst * columns dst] (data dst)\<rparr>"

definition matrix_difference :: "'a::minus Matrix \<Rightarrow> 'a Matrix \<Rightarrow> 'a Matrix \<Rightarrow> 'a Matrix" where
  "matrix_difference matrix1 matrix2 result =
     result\<lparr>data := fold (\<lambda>i d. d[i := data matrix1 ! i - data matrix2 ! i])
                        [0..<rows result * columns result] (data result)\<rparr>"

definition matrix_divide :: "'a::inverse Matrix \<Rightarrow> 'a \<Rightarrow> 'a Matrix" where
  "matrix_divide matrix v =
     matrix\<lparr>data := fold (\<lambda>i d. d[i := d ! i / v])
                        [0..<rows matrix * columns matrix] (data matrix)\<rparr>"

definition matrix_odot :: "'a::times Matrix \<Rightarrow> 'a Matrix \<Rightarrow> 'a Matrix" where
  "matrix_odot dst src =
     dst\<lparr>data := fold (\<lambda>i d. d[i := d ! i * data src ! i])
                     [0..<rows dst * columns dst] (data dst)\<rparr>"

definition matrix_apply :: "'a Matrix \<Rightarrow> ('a \<Rightarrow> 'a) \<Rightarrow> 'a Matrix" where
  "matrix_apply matrix activationFunction =
     matrix\<lparr>data := fold (\<lambda>i d. d[i := activationFunction (d ! i)])
                        [0..<rows matrix * columns matrix] (data matrix)\<rparr>"

text \<open>
  The innermost loop of \<^verbatim>\<open>matrix_dot\<close> and of \<^verbatim>\<open>matrix_dot_transpose\<close> is the same
  text in both functions: two cursors \<open>p1\<close> and \<open>p2\<close> walk a row of the first matrix
  and a column of the second, and \<open>sum\<close> accumulates the products from \<open>k = 0\<close>
  upwards. The cursors are offsets into the two buffers; \<open>a\<close> selects the row of
  \<open>matrix1\<close> and \<open>b\<close> the column of \<open>matrix2\<close>.
\<close>

definition dot_loop :: "'a::{zero,plus,times} Matrix \<Rightarrow> 'a Matrix \<Rightarrow> nat \<Rightarrow> nat \<Rightarrow> 'a" where
  "dot_loop matrix1 matrix2 a b =
     snd (snd (fold (\<lambda>k (p1, p2, sum).
                       (p1 + 1, p2 + columns matrix2, sum + data matrix1 ! p1 * data matrix2 ! p2))
                [0..<columns matrix1] (columns matrix1 * a, b, 0)))"

text \<open>\<^verbatim>\<open>matrix_dot\<close> writes through the running cursor \<open>p\<close> into the result.\<close>

definition matrix_dot :: "'a::{zero,plus,times} Matrix \<Rightarrow> 'a Matrix \<Rightarrow> 'a Matrix \<Rightarrow> 'a Matrix" where
  "matrix_dot matrix1 matrix2 result =
     result\<lparr>data := snd (fold (\<lambda>row. fold (\<lambda>col (p, d). (p + 1, d[p := dot_loop matrix1 matrix2 row col]))
                                         [0..<columns result])
                          [0..<rows result] (0, data result))\<rparr>"

definition matrix_transpose :: "'a Matrix \<Rightarrow> 'a Matrix \<Rightarrow> 'a Matrix" where
  "matrix_transpose matrix result =
     result\<lparr>data := fold (\<lambda>row. fold (\<lambda>col d. d[col * columns result + row :=
                                                      data matrix ! (row * columns matrix + col)])
                                    [0..<columns matrix])
                     [0..<rows matrix] (data result)\<rparr>"

definition matrix_dot_transpose :: "'a::{zero,plus,times} Matrix \<Rightarrow> 'a Matrix \<Rightarrow> 'a Matrix \<Rightarrow> 'a Matrix" where
  "matrix_dot_transpose matrix1 matrix2 result =
     result\<lparr>data := fold (\<lambda>col. fold (\<lambda>row d. d[row * columns result + col :=
                                                      dot_loop matrix1 matrix2 col row])
                                    [0..<rows result])
                     [0..<columns result] (data result)\<rparr>"

definition matrix_sum_rows_transpose :: "'a::{zero,plus} Matrix \<Rightarrow> 'a Matrix \<Rightarrow> 'a Matrix" where
  "matrix_sum_rows_transpose matrix result =
     (let d1 = fold (\<lambda>col d. let idx = col * columns result
                              in fold (\<lambda>row d. d[idx := d ! idx + data matrix ! (row * columns matrix + col)])
                                   [0..<rows matrix] (d[idx := 0]))
                 [0..<columns matrix] (data result);
          d2 = fold (\<lambda>col. fold (\<lambda>row d. d[row * columns result + col := d ! (row * columns result)])
                              [0..<rows result])
                 [1..<columns result] d1
      in result\<lparr>data := d2\<rparr>)"

section \<open>Double arithmetic\<close>

text \<open>
  \<open>pow2 k\<close> is the power of two with the integer exponent \<open>k\<close>, which may be negative.

  The C type \<^verbatim>\<open>double\<close> is the binary64 format of IEEE 754. Its finite values are the
  numbers \<open>m * 2 ^ e\<close> with \<open>\<bar>m\<bar> < 2 ^ 53\<close> and \<open>e \<ge> - 1074\<close>, and an operation returns
  the exact result rounded once to the nearest of them, to the one with the even \<open>m\<close>
  when two are equally near (the default rounding mode).

  \<open>exponent x\<close> is the \<open>e\<close> with \<open>2 ^ e \<le> \<bar>x\<bar> < 2 ^ (e + 1)\<close>, and \<open>- 1022\<close> for the smaller
  numbers (the subnormal range); \<open>ulp x\<close> is the distance between the doubles around
  \<open>x\<close>; \<open>round_double x\<close> is the double nearest to \<open>x\<close>. The exponent has no upper
  limit here: a result above \<^verbatim>\<open>DBL_MAX\<close>, which is an infinity in C, is not modelled, and
  the properties that need it bound the operands so that no result is above
  \<^verbatim>\<open>DBL_MAX\<close>.
\<close>

definition pow2 :: "int \<Rightarrow> real" where
  "pow2 k = 2 powr of_int k"

definition round_half_even :: "real \<Rightarrow> int" where
  "round_half_even x =
     (if x - of_int \<lfloor>x\<rfloor> < 1 / 2 then \<lfloor>x\<rfloor>
      else if 1 / 2 < x - of_int \<lfloor>x\<rfloor> then \<lfloor>x\<rfloor> + 1
      else if even \<lfloor>x\<rfloor> then \<lfloor>x\<rfloor> else \<lfloor>x\<rfloor> + 1)"

definition exponent :: "real \<Rightarrow> int" where
  "exponent x = max \<lfloor>log 2 \<bar>x\<bar>\<rfloor> (- 1022)"

definition ulp :: "real \<Rightarrow> real" where
  "ulp x = pow2 (exponent x - 52)"

definition round_double :: "real \<Rightarrow> double" where
  "round_double x = sgn x * (of_int (round_half_even (\<bar>x\<bar> / ulp x)) * ulp x)"

text \<open>
  The largest finite double (\<^verbatim>\<open>float.h\<close>), and the reals that are finite doubles: those
  that rounding leaves as they are, up to that magnitude.
\<close>

definition DBL_MAX :: double where
  "DBL_MAX = (2 ^ 53 - 1) * 2 ^ 971"

definition is_double :: "real \<Rightarrow> bool" where
  "is_double x \<longleftrightarrow> round_double x = x \<and> \<bar>x\<bar> \<le> DBL_MAX"

text \<open>The operators \<^verbatim>\<open>+\<close>, \<^verbatim>\<open>-\<close>, \<^verbatim>\<open>*\<close> and \<^verbatim>\<open>/\<close> on doubles, and the conversion of an \<^verbatim>\<open>int\<close>.\<close>

definition double_add :: "double \<Rightarrow> double \<Rightarrow> double" where
  "double_add x y = round_double (x + y)"

definition double_sub :: "double \<Rightarrow> double \<Rightarrow> double" where
  "double_sub x y = round_double (x - y)"

definition double_mul :: "double \<Rightarrow> double \<Rightarrow> double" where
  "double_mul x y = round_double (x * y)"

definition double_div :: "double \<Rightarrow> double \<Rightarrow> double" where
  "double_div x y = round_double (x / y)"

definition double_of_int :: "int \<Rightarrow> double" where
  "double_of_int n = round_double (of_int n)"

text \<open>
  \<^verbatim>\<open>exp\<close> of \<^verbatim>\<open>math.h\<close>. The C standard leaves its accuracy to the library; it is
  modelled by the exponential rounded to the nearest double. The properties below use
  of it that \<open>0 \<le> exp_double x \<le> 1\<close> for \<open>x \<le> 0\<close>, and at the one argument \<open>- 40\<close> that
  \<open>0 < exp_double x \<le> 1 / 2 ^ 53\<close> (the exponential is about \<open>4.2e-18\<close> there).
\<close>

definition exp_double :: "double \<Rightarrow> double" where
  "exp_double x = round_double (exp x)"

section \<open>Random numbers (random.c)\<close>

text \<open>
  \<^verbatim>\<open>rand()\<close> returns an integer between 0 and \<^verbatim>\<open>RAND_MAX\<close>, both included. The value it
  returns is the argument \<open>r\<close> of the two generators, and the constant of the C library
  is the argument \<open>RAND_MAX\<close>.
\<close>

text \<open>
  The remainder \<^verbatim>\<open>%\<close> of C truncates; its left operand \<^verbatim>\<open>rand()\<close> is not negative, and
  all callers pass \<open>min' \<le> max'\<close>, where it agrees with \<open>mod\<close>.
\<close>

definition deepc_random_int :: "nat \<Rightarrow> int \<Rightarrow> int \<Rightarrow> int" where
  "deepc_random_int r min' max' = int r mod (max' - min' + 1) + min'"

text \<open>
  In \<^verbatim>\<open>((double)rand() / RAND_MAX) * (max - min) + min\<close> the cast and the usual arithmetic
  conversion turn both integers into doubles, and each of the four operations rounds.
\<close>

definition deepc_random_double :: "nat \<Rightarrow> nat \<Rightarrow> double \<Rightarrow> double \<Rightarrow> double" where
  "deepc_random_double RAND_MAX r min' max' =
     double_add (double_mul (double_div (double_of_int (int r)) (double_of_int (int RAND_MAX)))
                            (double_sub max' min'))
                min'"

section \<open>Activation functions (activation.c)\<close>

definition activation_linear :: "double \<Rightarrow> double" where
  "activation_linear x = x"

definition activation_linearDeriv :: "double \<Rightarrow> double" where
  "activation_linearDeriv y = 1"

text \<open>
  In C, \<^verbatim>\<open>1.0 - (1.0 / 1 + exp(x))\<close> is \<^verbatim>\<open>1.0 - ((1.0 / 1) + exp(x))\<close>: the division binds
  tighter than the addition.
\<close>

definition activation_sigmoid :: "double \<Rightarrow> double" where
  "activation_sigmoid x =
     (if x \<ge> 0 then double_div 1.0 (double_add 1 (exp_double (- x)))
      else double_sub 1.0 (double_add (double_div 1.0 1) (exp_double x)))"

definition activation_sigmoidDeriv :: "double \<Rightarrow> double" where
  "activation_sigmoidDeriv y = double_mul y (double_sub 1 y)"

definition activation_tanh :: "double \<Rightarrow> double" where
  "activation_tanh x =
     double_div (double_sub (exp_double x) (exp_double (- x)))
                (double_add (exp_double x) (exp_double (- x)))"

definition activation_tanhDeriv :: "double \<Rightarrow> double" where
  "activation_tanhDeriv y = double_sub 1 (double_mul y y)"

definition activation_relu :: "double \<Rightarrow> double" where
  "activation_relu x = (if x \<ge> 0 then x else 0)"

definition activation_reluDeriv :: "double \<Rightarrow> double" where
  "activation_reluDeriv y = (if y > 0 then 1 else 0)"

definition ACTIVATION_LINEAR :: int where "ACTIVATION_LINEAR = 0"
definition ACTIVATION_SIGMOID :: int where "ACTIVATION_SIGMOID = 1"
definition ACTIVATION_TANH :: int where "ACTIVATION_TANH = 2"
definition ACTIVATION_RELU :: int where "ACTIVATION_RELU = 3"

definition getActivationFunction :: "int \<Rightarrow> double \<Rightarrow> double" where
  "getActivationFunction code =
     (if code = ACTIVATION_SIGMOID then activation_sigmoid
      else if code = ACTIVATION_TANH then activation_tanh
      else if code = ACTIVATION_RELU then activation_relu
      else activation_linear)"

definition getActivationFunctionDeriv :: "int \<Rightarrow> double \<Rightarrow> double" where
  "getActivationFunctionDeriv code =
     (if code = ACTIVATION_SIGMOID then activation_sigmoidDeriv
      else if code = ACTIVATION_TANH then activation_tanhDeriv
      else if code = ACTIVATION_RELU then activation_reluDeriv
      else activation_linearDeriv)"

section \<open>Loss functions (loss.c)\<close>

text \<open>
  A loss function fills the matrix \<open>error\<close> and returns the scalar loss; the model
  returns both.
\<close>

definition LOSS_NONE :: int where "LOSS_NONE = 0"
definition LOSS_MSE :: int where "LOSS_MSE = 1"

definition errorFunction :: "double Matrix \<Rightarrow> double Matrix \<Rightarrow> double Matrix \<Rightarrow> double \<times> double Matrix" where
  "errorFunction yhat y error =
     (let error = matrix_copy error y;
          n = rows error * columns error;
          sum = fold (\<lambda>i sum. sum + data error ! i) [0..<n] 0
      in (sum / real n, error))"

definition mse :: "double Matrix \<Rightarrow> double Matrix \<Rightarrow> double Matrix \<Rightarrow> double \<times> double Matrix" where
  "mse yhat y error =
     (let error = matrix_difference yhat y error;
          n = rows error * columns error;
          sum = fold (\<lambda>i sum. sum + (data error ! i) ^ 2) [0..<n] 0
      in (sum / real n, error))"

definition getLossFunction ::
  "int \<Rightarrow> double Matrix \<Rightarrow> double Matrix \<Rightarrow> double Matrix \<Rightarrow> double \<times> double Matrix" where
  "getLossFunction code = (if code = LOSS_MSE then mse else errorFunction)"

section \<open>Multilayer perceptron (mlp.h, mlp.c)\<close>

text \<open>
  The field \<^verbatim>\<open>output\<close> of the struct \<^verbatim>\<open>MLP\<close> is \<open>mlp_output\<close> here, since the
  layers have a field of the same name. The array \<^verbatim>\<open>layers\<close> has \<open>depth + 1\<close> entries.
  Every network owns its buffers: no two matrices of a network, and no two networks,
  share a buffer.
\<close>

record Layer =
  weights :: "double Matrix"
  biases :: "double Matrix"
  "output" :: "double Matrix"
  errors :: "double Matrix"
  deltas :: "double Matrix"
  gradWeights :: "double Matrix"
  gradBiases :: "double Matrix"
  activation :: "double \<Rightarrow> double"
  activationDeriv :: "double \<Rightarrow> double"

record MLP =
  depth :: nat
  batchSize :: nat
  layers :: "Layer list"
  input :: "double Matrix"
  inputErrors :: "double Matrix"
  mlp_output :: "double Matrix"

text \<open>
  One round of the loop of \<^verbatim>\<open>mlp_feedforward\<close>. The C pointer \<^verbatim>\<open>input\<close> points to the
  network's input or to the output of the previous layer, neither of which the round
  writes; the model carries the matrix it points to.
\<close>

definition feedforward_layer :: "nat \<Rightarrow> double Matrix \<times> Layer list \<Rightarrow> double Matrix \<times> Layer list" where
  "feedforward_layer i = (\<lambda>(inp, ls).
     let l = ls ! i;
         l = l\<lparr>output := matrix_dot (weights l) inp (output l)\<rparr>;
         l = l\<lparr>output := matrix_add (output l) (biases l)\<rparr>;
         l = l\<lparr>output := matrix_apply (output l) (activation l)\<rparr>
     in (output l, ls[i := l]))"

text \<open>
  \<^verbatim>\<open>mlp_feedforward\<close> returns the struct \<^verbatim>\<open>mlp->output\<close>, whose buffer is the network's
  own: the caller reads the result from \<open>mlp_output\<close> of the returned network.
\<close>

definition mlp_feedforward :: "MLP \<Rightarrow> double Matrix \<Rightarrow> MLP" where
  "mlp_feedforward mlp x =
     (let mlp = mlp\<lparr>input := matrix_transpose x (input mlp)\<rparr>;
          (inp, ls) = fold feedforward_layer [0..<depth mlp + 1] (input mlp, layers mlp)
      in mlp\<lparr>layers := ls, mlp_output := matrix_transpose inp (mlp_output mlp)\<rparr>)"

text \<open>The body of the loop that propagates the deltas towards the first layer.\<close>

definition backpropagate_layer :: "nat \<Rightarrow> Layer list \<Rightarrow> Layer list" where
  "backpropagate_layer i ls =
     (let ls = ls[i := (ls ! i)\<lparr>errors := matrix_dot (deltas (ls ! (i + 1))) (weights (ls ! (i + 1)))
                                            (errors (ls ! i))\<rparr>];
          ls = ls[i := (ls ! i)\<lparr>deltas := matrix_transpose (output (ls ! i)) (deltas (ls ! i))\<rparr>];
          ls = ls[i := (ls ! i)\<lparr>deltas := matrix_apply (deltas (ls ! i)) (activationDeriv (ls ! i))\<rparr>];
          ls = ls[i := (ls ! i)\<lparr>deltas := matrix_odot (deltas (ls ! i)) (errors (ls ! i))\<rparr>]
      in ls)"

text \<open>The body of the loop that computes the gradients.\<close>

definition gradient_layer :: "nat \<Rightarrow> nat \<Rightarrow> double Matrix \<times> Layer list \<Rightarrow> double Matrix \<times> Layer list" where
  "gradient_layer B i = (\<lambda>(inp, ls).
     let ls = ls[i := (ls ! i)\<lparr>gradWeights := matrix_dot_transpose inp (deltas (ls ! i))
                                                 (gradWeights (ls ! i))\<rparr>];
         ls = ls[i := (ls ! i)\<lparr>gradWeights := matrix_divide (gradWeights (ls ! i)) (real B)\<rparr>];
         inp = output (ls ! i);
         ls = ls[i := (ls ! i)\<lparr>gradBiases := matrix_sum_rows_transpose (deltas (ls ! i))
                                                (gradBiases (ls ! i))\<rparr>];
         ls = ls[i := (ls ! i)\<lparr>gradBiases := matrix_divide (gradBiases (ls ! i)) (real B)\<rparr>]
     in (inp, ls))"

text \<open>
  \<^verbatim>\<open>mlp_backpropagate\<close> returns the loss and leaves the gradients in the network. The
  loop \<^verbatim>\<open>for (i = depth - 1; i >= 0; i--)\<close> runs over the hidden layers from the last
  to the first.
\<close>

definition mlp_backpropagate :: "MLP \<Rightarrow> double Matrix \<Rightarrow> int \<Rightarrow> double \<times> MLP" where
  "mlp_backpropagate mlp y lossFunctionCode =
     (let lossFunction = getLossFunction lossFunctionCode;
          n = depth mlp;
          (loss, e) = lossFunction (mlp_output mlp) y (errors (layers mlp ! n));
          ls = (layers mlp)[n := (layers mlp ! n)\<lparr>errors := e\<rparr>];
          ls = ls[n := (ls ! n)\<lparr>deltas := matrix_copy (deltas (ls ! n)) (mlp_output mlp)\<rparr>];
          ls = ls[n := (ls ! n)\<lparr>deltas := matrix_apply (deltas (ls ! n)) (activationDeriv (ls ! n))\<rparr>];
          ls = (if n > 0
                then ls[n := (ls ! n)\<lparr>deltas := matrix_odot (deltas (ls ! n)) (errors (ls ! n))\<rparr>]
                else ls);
          ls = fold backpropagate_layer (rev [0..<n]) ls;
          ie = matrix_dot (deltas (ls ! 0)) (weights (ls ! 0)) (inputErrors mlp);
          (inp, ls) = fold (gradient_layer (batchSize mlp)) [0..<n + 1] (input mlp, ls)
      in (loss, mlp\<lparr>layers := ls, inputErrors := ie\<rparr>))"

definition mlp_get_input_errors :: "MLP \<Rightarrow> double Matrix" where
  "mlp_get_input_errors mlp = inputErrors mlp"

section \<open>Adam optimizer (adam.h, adam.c)\<close>

text \<open>The field \<^verbatim>\<open>depth\<close> of the struct \<^verbatim>\<open>Adam\<close> is \<open>adam_depth\<close> here.\<close>

record Adam =
  t :: double
  alpha :: double
  beta1 :: double
  beta2 :: double
  beta1t :: double
  beta2t :: double
  epsilon :: double
  adam_depth :: nat
  mw :: "double Matrix list"
  mb :: "double Matrix list"
  vw :: "double Matrix list"
  vb :: "double Matrix list"

text \<open>
  The body of the two innermost loops of \<^verbatim>\<open>adam_optimize\<close>, at the cell \<open>idx\<close>: the
  buffers of the parameter, of the first moment and of the second moment are the
  state, the buffer \<open>g\<close> of the gradient is only read.
\<close>

definition adam_weight_cell ::
  "Adam \<Rightarrow> double list \<Rightarrow> nat \<Rightarrow> double list \<times> double list \<times> double list
     \<Rightarrow> double list \<times> double list \<times> double list" where
  "adam_weight_cell adam gw idx = (\<lambda>(w, m, v).
     let m = m[idx := beta1 adam * m ! idx + (1 - beta1 adam) * gw ! idx];
         v = v[idx := beta2 adam * v ! idx + (1 - beta2 adam) * gw ! idx * gw ! idx];
         mw1 = m ! idx / (1 - beta1t adam);
         vw1 = v ! idx / (1 - beta2t adam)
     in (w[idx := w ! idx - alpha adam * (mw1 / (sqrt vw1 + epsilon adam))], m, v))"

definition adam_bias_cell ::
  "Adam \<Rightarrow> double list \<Rightarrow> nat \<Rightarrow> double list \<times> double list \<times> double list
     \<Rightarrow> double list \<times> double list \<times> double list" where
  "adam_bias_cell adam gb idx = (\<lambda>(b, m, v).
     let m = m[idx := beta1 adam * m ! idx + (1 - beta1 adam) * gb ! idx];
         v = v[idx := beta2 adam * v ! idx + (1 - beta2 adam) * gb ! idx * gb ! idx];
         mb1 = m ! idx / (1 - beta1t adam);
         vb1 = v ! idx / (1 - beta2t adam)
     in (b[idx := b ! idx - alpha adam * (mb1 / sqrt vb1 + epsilon adam)], m, v))"

text \<open>One round of the loop over the layers.\<close>

definition adam_layer :: "nat \<Rightarrow> MLP \<times> Adam \<Rightarrow> MLP \<times> Adam" where
  "adam_layer i = (\<lambda>(mlp, adam).
     let l = layers mlp ! i;
         w = weights l; b = biases l; gw = gradWeights l; gb = gradBiases l;
         (wd, mwd, vwd) =
            fold (\<lambda>row. fold (\<lambda>col. adam_weight_cell adam (data gw) (row * columns w + col))
                           [0..<columns w])
              [0..<rows w] (data w, data (mw adam ! i), data (vw adam ! i));
         (bd, mbd, vbd) =
            fold (\<lambda>row. fold (\<lambda>col. adam_bias_cell adam (data gb) (row * columns b + col))
                           [0..<columns b])
              [0..<rows b] (data b, data (mb adam ! i), data (vb adam ! i))
     in (mlp\<lparr>layers := (layers mlp)[i := l\<lparr>weights := w\<lparr>data := wd\<rparr>, biases := b\<lparr>data := bd\<rparr>\<rparr>]\<rparr>,
         adam\<lparr>mw := (mw adam)[i := (mw adam ! i)\<lparr>data := mwd\<rparr>],
              vw := (vw adam)[i := (vw adam ! i)\<lparr>data := vwd\<rparr>],
              mb := (mb adam)[i := (mb adam ! i)\<lparr>data := mbd\<rparr>],
              vb := (vb adam)[i := (vb adam ! i)\<lparr>data := vbd\<rparr>]\<rparr>))"

definition adam_optimize :: "MLP \<Rightarrow> Adam \<Rightarrow> MLP \<times> Adam" where
  "adam_optimize mlp adam =
     (let adam = adam\<lparr>t := t adam + 1\<rparr>;
          (mlp, adam) = fold adam_layer [0..<adam_depth adam] (mlp, adam)
      in (mlp, adam\<lparr>beta1t := beta1t adam * beta1 adam, beta2t := beta2t adam * beta2 adam\<rparr>))"

section \<open>Files (stdio.h)\<close>

text \<open>
  The persistence code writes and reads whole \<^verbatim>\<open>int\<close>s and \<^verbatim>\<open>double\<close>s with
  \<^verbatim>\<open>fwrite\<close> and \<^verbatim>\<open>fread\<close>. A file is modelled at that granularity, as the sequence
  of the values it holds, each tagged with its C type; the bytes of a value are not
  modelled, so a value read back is the value written. \<open>position\<close> is the file
  position, and \<open>capacity\<close> bounds the number of values the device takes before a
  write comes back short (\<open>\<infinity>\<close> for a device that never fills). \<^verbatim>\<open>fopen\<close> is the
  caller's: the functions that open a file take what \<^verbatim>\<open>fopen\<close> returned, \<open>None\<close> for
  \<^verbatim>\<open>NULL\<close>. \<^verbatim>\<open>malloc\<close> is taken to succeed.
\<close>

datatype item = I32 int | F64 double

record FILE =
  contents :: "item list"
  position :: nat
  capacity :: enat

text \<open>
  \<^verbatim>\<open>fwrite(ptr, size, n, file)\<close> appends the items it is given, as many as fit, and
  returns their number.
\<close>

definition fwrite :: "item list \<Rightarrow> FILE \<Rightarrow> nat \<times> FILE" where
  "fwrite xs file =
     (let k = (case capacity file of
                 enat c \<Rightarrow> min (length xs) (c - length (contents file))
               | \<infinity> \<Rightarrow> length xs)
      in (k, file\<lparr>contents := contents file @ take k xs, position := position file + k\<rparr>))"

text \<open>
  \<^verbatim>\<open>fread(&v, sizeof(int), 1, file)\<close>: \<open>Some v\<close> stands for the return value 1, \<open>None\<close> for
  a short read (end of file, or a value of the other type at the file position).
\<close>

definition fread_int :: "FILE \<Rightarrow> int option \<times> FILE" where
  "fread_int file =
     (case drop (position file) (contents file) of
        I32 v # _ \<Rightarrow> (Some v, file\<lparr>position := position file + 1\<rparr>)
      | _ \<Rightarrow> (None, file))"

text \<open>
  \<^verbatim>\<open>fread(data, sizeof(double), n, file)\<close> reads doubles until \<open>n\<close> are read or the next
  value is not one; the doubles read stand for the filled part of the buffer, and their
  number is the return value.
\<close>

fun the_F64s :: "item list \<Rightarrow> double list" where
  "the_F64s (F64 x # xs) = x # the_F64s xs"
| "the_F64s _ = []"

definition fread_doubles :: "nat \<Rightarrow> FILE \<Rightarrow> double list \<times> FILE" where
  "fread_doubles n file =
     (let xs = the_F64s (take n (drop (position file) (contents file)))
      in (xs, file\<lparr>position := position file + length xs\<rparr>))"

text \<open>
  \<^verbatim>\<open>matrix_write\<close> returns 0 or -1; the model returns the file as well.
\<close>

definition matrix_write :: "double Matrix \<Rightarrow> FILE \<Rightarrow> int \<times> FILE" where
  "matrix_write matrix file =
     (let (k, file) = fwrite [I32 (int (rows matrix))] file
      in if k \<noteq> 1 then (-1, file)
         else let (k, file) = fwrite [I32 (int (columns matrix))] file
              in if k \<noteq> 1 then (-1, file)
                 else let n = rows matrix * columns matrix;
                          (k, file) = fwrite (map (\<lambda>i. F64 (data matrix ! i)) [0..<n]) file
                      in if k \<noteq> n then (-1, file) else (0, file))"

text \<open>
  \<^verbatim>\<open>matrix_read\<close> returns a struct whose shape fields hold whatever two \<^verbatim>\<open>int\<close>s the file
  had; they can be negative, so the result is given as the triple of the fields
  \<^verbatim>\<open>rows\<close>, \<^verbatim>\<open>columns\<close> and \<^verbatim>\<open>data\<close> (\<open>None\<close> for \<^verbatim>\<open>NULL\<close>), beside the file.
\<close>

definition matrix_read :: "FILE \<Rightarrow> (int \<times> int \<times> double list option) \<times> FILE" where
  "matrix_read file =
     (case fread_int file of
        (None, file) \<Rightarrow> ((0, 0, None), file)
      | (Some rows', file) \<Rightarrow>
          (case fread_int file of
             (None, file) \<Rightarrow> ((0, 0, None), file)
           | (Some columns', file) \<Rightarrow>
               let n = rows' * columns'
               in if n \<le> 0 then ((0, 0, None), file)
                  else let (xs, file) = fread_doubles (nat n) file
                       in if int (length xs) \<noteq> n then ((0, 0, None), file)
                          else ((rows', columns', Some xs), file)))"

text \<open>
  \<^verbatim>\<open>mlp_write_weights\<close> and \<^verbatim>\<open>mlp_read_weights\<close> loop over the layers \<open>0 .. depth\<close> and
  leave the loop at the first failure.
\<close>

fun write_layers :: "nat list \<Rightarrow> MLP \<Rightarrow> FILE \<Rightarrow> int \<times> FILE" where
  "write_layers [] mlp file = (0, file)"
| "write_layers (i # is) mlp file =
     (let (r, file) = matrix_write (weights (layers mlp ! i)) file
      in if r \<noteq> 0 then (-1, file)
         else let (r, file) = matrix_write (biases (layers mlp ! i)) file
              in if r \<noteq> 0 then (-1, file)
                 else write_layers is mlp file)"

definition mlp_write_weights :: "MLP \<Rightarrow> FILE \<Rightarrow> int \<times> FILE" where
  "mlp_write_weights mlp file = write_layers [0..<depth mlp + 1] mlp file"

text \<open>
  After the shape test of \<^verbatim>\<open>mlp_read_weights\<close> the matrix read has the shape of the
  target, and \<^verbatim>\<open>matrix_copy\<close> reads its buffer only.
\<close>

fun read_layers :: "nat list \<Rightarrow> MLP \<Rightarrow> FILE \<Rightarrow> int \<times> MLP \<times> FILE" where
  "read_layers [] mlp file = (0, mlp, file)"
| "read_layers (i # is) mlp file =
     (let l = layers mlp ! i;
          ((rows', columns', data'), file) = matrix_read file
      in if rows' \<noteq> int (rows (weights l)) \<or> columns' \<noteq> int (columns (weights l)) \<or> data' = None
         then (-1, mlp, file)
         else let l = l\<lparr>weights := matrix_copy (weights l)
                                       \<lparr>rows = nat rows', columns = nat columns', data = the data'\<rparr>\<rparr>;
                  mlp = mlp\<lparr>layers := (layers mlp)[i := l]\<rparr>;
                  ((rows', columns', data'), file) = matrix_read file
              in if rows' \<noteq> int (rows (biases l)) \<or> columns' \<noteq> int (columns (biases l)) \<or> data' = None
                 then (-1, mlp, file)
                 else let l = l\<lparr>biases := matrix_copy (biases l)
                                              \<lparr>rows = nat rows', columns = nat columns', data = the data'\<rparr>\<rparr>;
                          mlp = mlp\<lparr>layers := (layers mlp)[i := l]\<rparr>
                      in read_layers is mlp file)"

definition mlp_read_weights :: "MLP \<Rightarrow> FILE \<Rightarrow> int \<times> MLP \<times> FILE" where
  "mlp_read_weights mlp file = read_layers [0..<depth mlp + 1] mlp file"

section \<open>DDPG agent (ddpg.h, ddpg.c)\<close>

text \<open>
  The field \<^verbatim>\<open>batchSize\<close> of the struct \<^verbatim>\<open>DDPG\<close> is \<open>ddpg_batchSize\<close> here. The
  pointer \<^verbatim>\<open>noise\<close> may be \<^verbatim>\<open>NULL\<close>. The networks and optimizers the struct points to
  belong to the agent alone and are held by value.
\<close>

record DDPG =
  stateSize :: nat
  actionSize :: nat
  action :: "double list"
  noise :: "double list option"
  actor :: MLP
  critic :: MLP
  actorTarget :: MLP
  criticTarget :: MLP
  actorAdam :: Adam
  criticAdam :: Adam
  actorInput :: "double Matrix"
  criticInput :: "double Matrix"
  actorErrors :: "double Matrix"
  criticErrors :: "double Matrix"
  ddpg_batchSize :: nat
  batchIndices :: "nat list"
  memorySize :: nat
  memoryUsed :: nat
  memoryIdx :: nat
  memory :: "double Matrix"
  lastState :: "double list"
  lastStateValid :: bool

text \<open>
  \<^verbatim>\<open>ddpg_data_copy(dst, src, length)\<close> takes two pointers into buffers; each is a
  buffer and an offset here, and the result is the destination buffer.
\<close>

definition ddpg_data_copy :: "double list \<Rightarrow> nat \<Rightarrow> double list \<Rightarrow> nat \<Rightarrow> nat \<Rightarrow> double list" where
  "ddpg_data_copy dst dst_off src src_off len =
     fold (\<lambda>i d. d[dst_off + i := src ! (src_off + i)]) [0..<len] dst"

text \<open>The offset of \<^verbatim>\<open>&MATRIX(matrix, row, col)\<close> in the buffer of the matrix.\<close>

definition MATRIX_offset :: "'a Matrix \<Rightarrow> nat \<Rightarrow> nat \<Rightarrow> nat" where
  "MATRIX_offset matrix row col = row * columns matrix + col"

text \<open>
  \<^verbatim>\<open>ddpg_observe\<close>: the arguments \<^verbatim>\<open>action\<close> and \<^verbatim>\<open>state\<close> are the caller's arrays, and
  \<open>col\<close> is the local variable that the C code advances inside the macro arguments.
\<close>

definition ddpg_observe :: "DDPG \<Rightarrow> double list \<Rightarrow> double \<Rightarrow> double list \<Rightarrow> int \<Rightarrow> DDPG" where
  "ddpg_observe ddpg action' reward state terminal =
     (if \<not> lastStateValid ddpg
      then ddpg\<lparr>lastState := ddpg_data_copy (lastState ddpg) 0 state 0 (stateSize ddpg),
                lastStateValid := True\<rparr>
      else
        let m = memory ddpg; row = memoryIdx ddpg;
            col = 0;
            d = ddpg_data_copy (data m) (MATRIX_offset m row 0) (lastState ddpg) 0 (stateSize ddpg);
            col = col + stateSize ddpg;
            d = ddpg_data_copy d (MATRIX_offset m row col) action' 0 (actionSize ddpg);
            col = col + actionSize ddpg;
            d = d[MATRIX_offset m row col := reward];
            col = col + 1;
            d = ddpg_data_copy d (MATRIX_offset m row col) state 0 (stateSize ddpg);
            d = d[MATRIX_offset m row (col + stateSize ddpg) := (if terminal > 0 then 1.0 else 0.0)]
        in ddpg\<lparr>memory := m\<lparr>data := d\<rparr>,
                lastState := ddpg_data_copy (lastState ddpg) 0 state 0 (stateSize ddpg),
                memoryIdx := (memoryIdx ddpg + 1) mod memorySize ddpg,
                memoryUsed := (if memoryUsed ddpg < memorySize ddpg then memoryUsed ddpg + 1
                               else memoryUsed ddpg)\<rparr>)"

definition ddpg_new_episode :: "DDPG \<Rightarrow> DDPG" where
  "ddpg_new_episode ddpg = ddpg\<lparr>lastStateValid := False\<rparr>"

text \<open>
  \<^verbatim>\<open>ddpg_train\<close> is one C function; the model follows its comments and splits it into
  the selection of the batch, the training of the actor, the three forward passes of the
  training of the critic, the Bellman loop, and the update of the critic. \<open>rand i\<close> is
  the value that the \<open>i\<close>-th call of \<^verbatim>\<open>rand()\<close> inside the function returns.
\<close>

definition ddpg_select_batch :: "DDPG \<Rightarrow> (nat \<Rightarrow> nat) \<Rightarrow> DDPG" where
  "ddpg_select_batch ddpg rand =
     ddpg\<lparr>batchIndices :=
       fold (\<lambda>i b. b[i := nat (deepc_random_int (rand i) 0 (int (memoryUsed ddpg) - 1))])
         [0..<ddpg_batchSize ddpg] (batchIndices ddpg)\<rparr>"

definition ddpg_train_actor :: "DDPG \<Rightarrow> DDPG" where
  "ddpg_train_actor ddpg =
     (let B = ddpg_batchSize ddpg; S = stateSize ddpg; A = actionSize ddpg;
          m = memory ddpg; idx = batchIndices ddpg;
          ai = actorInput ddpg;
          ai = ai\<lparr>data := fold (\<lambda>i d. ddpg_data_copy d (MATRIX_offset ai i 0)
                                          (data m) (MATRIX_offset m (idx ! i) 0) S)
                              [0..<B] (data ai)\<rparr>;
          actor1 = mlp_feedforward (actor ddpg) ai;
          proposedActions = mlp_output actor1;
          ci = criticInput ddpg;
          ci = ci\<lparr>data := fold (\<lambda>i d.
                                 let d = ddpg_data_copy d (MATRIX_offset ci i 0)
                                           (data proposedActions) (MATRIX_offset proposedActions i 0) A
                                 in ddpg_data_copy d (MATRIX_offset ci i A)
                                      (data m) (MATRIX_offset m (idx ! i) 0) S)
                              [0..<B] (data ci)\<rparr>;
          critic1 = mlp_feedforward (critic ddpg) ci;
          ce = matrix_fill (criticErrors ddpg) (- 1);
          (loss, critic2) = mlp_backpropagate critic1 ce LOSS_NONE;
          errs = mlp_get_input_errors critic2;
          ae = actorErrors ddpg;
          ae = ae\<lparr>data := fold (\<lambda>i d. ddpg_data_copy d (MATRIX_offset ae i 0)
                                          (data errs) (MATRIX_offset errs i 0) A)
                              [0..<B] (data ae)\<rparr>;
          (loss, actor2) = mlp_backpropagate actor1 ae LOSS_NONE;
          (actor3, adam) = adam_optimize actor2 (actorAdam ddpg)
      in ddpg\<lparr>actorInput := ai, criticInput := ci, criticErrors := ce, actorErrors := ae,
              actor := actor3, critic := critic2, actorAdam := adam\<rparr>)"

text \<open>
  The forward passes of the critic on the stored actions, of the target actor on the
  next states and of the target critic on the target actions. The C variables
  \<^verbatim>\<open>criticOutput\<close>, \<^verbatim>\<open>actorTargetOutput\<close> and \<^verbatim>\<open>CriticTargetOutput\<close> are the output
  matrices of the three networks, which are three different buffers.
\<close>

definition ddpg_critic_forward :: "DDPG \<Rightarrow> DDPG" where
  "ddpg_critic_forward ddpg =
     (let B = ddpg_batchSize ddpg; S = stateSize ddpg; A = actionSize ddpg;
          m = memory ddpg; idx = batchIndices ddpg;
          ci = criticInput ddpg;
          ci = ci\<lparr>data := fold (\<lambda>i d.
                                 let d = ddpg_data_copy d (MATRIX_offset ci i 0)
                                           (data m) (MATRIX_offset m (idx ! i) S) A
                                 in ddpg_data_copy d (MATRIX_offset ci i A)
                                      (data m) (MATRIX_offset m (idx ! i) 0) S)
                              [0..<B] (data ci)\<rparr>;
          critic1 = mlp_feedforward (critic ddpg) ci;
          ai = actorInput ddpg;
          ai = ai\<lparr>data := fold (\<lambda>i d. ddpg_data_copy d (MATRIX_offset ai i 0)
                                          (data m) (MATRIX_offset m (idx ! i) (S + A + 1)) S)
                              [0..<B] (data ai)\<rparr>;
          actorTarget1 = mlp_feedforward (actorTarget ddpg) ai;
          actorTargetOutput = mlp_output actorTarget1;
          ci = ci\<lparr>data := fold (\<lambda>i d.
                                 let d = ddpg_data_copy d (MATRIX_offset ci i 0)
                                           (data actorTargetOutput) (MATRIX_offset actorTargetOutput i 0) A
                                 in ddpg_data_copy d (MATRIX_offset ci i A)
                                      (data m) (MATRIX_offset m (idx ! i) (S + A + 1)) S)
                              [0..<B] (data ci)\<rparr>;
          criticTarget1 = mlp_feedforward (criticTarget ddpg) ci
      in ddpg\<lparr>actorInput := ai, criticInput := ci, critic := critic1,
              actorTarget := actorTarget1, criticTarget := criticTarget1\<rparr>)"

text \<open>The loop that computes the critic errors using the Bellman equation.\<close>

definition ddpg_bellman :: "DDPG \<Rightarrow> double \<Rightarrow> double Matrix \<Rightarrow> double Matrix \<Rightarrow> DDPG" where
  "ddpg_bellman ddpg gamma criticOutput CriticTargetOutput =
     ddpg\<lparr>criticErrors :=
       fold (\<lambda>i ce.
               let reward = MATRIX (memory ddpg) (batchIndices ddpg ! i)
                              (stateSize ddpg + actionSize ddpg);
                   terminal = MATRIX (memory ddpg) (batchIndices ddpg ! i)
                                (2 * stateSize ddpg + actionSize ddpg + 1)
               in if terminal > 0
                  then MATRIX_assign ce i 0 (MATRIX criticOutput i 0)
                  else MATRIX_assign ce i 0
                         (MATRIX criticOutput i 0 - (reward + gamma * MATRIX CriticTargetOutput i 0)))
         [0..<ddpg_batchSize ddpg] (criticErrors ddpg)\<rparr>"

definition ddpg_critic_update :: "DDPG \<Rightarrow> DDPG" where
  "ddpg_critic_update ddpg =
     (let (loss, critic1) = mlp_backpropagate (critic ddpg) (criticErrors ddpg) LOSS_NONE;
          (critic2, adam) = adam_optimize critic1 (criticAdam ddpg)
      in ddpg\<lparr>critic := critic2, criticAdam := adam\<rparr>)"

definition ddpg_train :: "DDPG \<Rightarrow> double \<Rightarrow> (nat \<Rightarrow> nat) \<Rightarrow> DDPG" where
  "ddpg_train ddpg gamma rand =
     (if memoryUsed ddpg < ddpg_batchSize ddpg then ddpg
      else let ddpg = ddpg_select_batch ddpg rand;
               ddpg = ddpg_train_actor ddpg;
               ddpg = ddpg_critic_forward ddpg;
               ddpg = ddpg_bellman ddpg gamma (mlp_output (critic ddpg))
                        (mlp_output (criticTarget ddpg))
           in ddpg_critic_update ddpg)"

text \<open>
  \<^verbatim>\<open>ddpg_save_policy\<close> and \<^verbatim>\<open>ddpg_load_policy\<close> take the result of their \<^verbatim>\<open>fopen\<close>; the
  first returns its status and the file it closed, the second its status and the agent.
\<close>

definition ddpg_save_policy :: "DDPG \<Rightarrow> FILE option \<Rightarrow> int \<times> FILE option" where
  "ddpg_save_policy ddpg fopen =
     (case fopen of
        None \<Rightarrow> (-1, None)
      | Some file \<Rightarrow>
          let (r, file) = mlp_write_weights (actor ddpg) file
          in if r \<noteq> 0 then (-1, Some file)
             else let (r, file) = mlp_write_weights (critic ddpg) file
                  in if r \<noteq> 0 then (-1, Some file) else (0, Some file))"

definition ddpg_load_policy :: "DDPG \<Rightarrow> FILE option \<Rightarrow> int \<times> DDPG" where
  "ddpg_load_policy ddpg fopen =
     (case fopen of
        None \<Rightarrow> (-1, ddpg)
      | Some file \<Rightarrow>
          let (r, actor1, file) = mlp_read_weights (actor ddpg) file;
              ddpg = ddpg\<lparr>actor := actor1\<rparr>
          in if r \<noteq> 0 then (-1, ddpg)
             else let (r, critic1, file) = mlp_read_weights (critic ddpg) file;
                      ddpg = ddpg\<lparr>critic := critic1\<rparr>
                  in if r \<noteq> 0 then (-1, ddpg) else (0, ddpg))"

section \<open>Notions used by the properties\<close>

text \<open>
  What \<^verbatim>\<open>ddpg_create\<close> establishes for the replay memory and the last state of an
  agent with state size \<open>S\<close>, action size \<open>A\<close> and capacity \<open>M\<close>: the memory matrix has
  shape \<open>M \<times> (A + 2 S + 2)\<close>, \<^verbatim>\<open>memoryUsed\<close> and \<^verbatim>\<open>memoryIdx\<close> are 0, \<^verbatim>\<open>lastState\<close> has
  \<open>S\<close> cells and \<^verbatim>\<open>lastStateValid\<close> is 0. The buffers come from \<^verbatim>\<open>malloc\<close>, so their
  contents are arbitrary.
\<close>

definition ddpg_fresh :: "nat \<Rightarrow> nat \<Rightarrow> nat \<Rightarrow> DDPG \<Rightarrow> bool" where
  "ddpg_fresh S A M ddpg \<longleftrightarrow>
     stateSize ddpg = S \<and> actionSize ddpg = A \<and>
     rows (memory ddpg) = M \<and> columns (memory ddpg) = A + 2 * S + 2 \<and>
     length (data (memory ddpg)) = M * (A + 2 * S + 2) \<and>
     memorySize ddpg = M \<and> memoryUsed ddpg = 0 \<and> memoryIdx ddpg = 0 \<and>
     length (lastState ddpg) = S \<and> \<not> lastStateValid ddpg"

text \<open>The calls a client makes on an agent between its creation and its destruction.\<close>

datatype call =
    Observe "double list" double "double list" int
  | NewEpisode
  | Train double "nat \<Rightarrow> nat"

fun ddpg_call :: "call \<Rightarrow> DDPG \<Rightarrow> DDPG" where
  "ddpg_call (Observe action' reward state terminal) ddpg =
     ddpg_observe ddpg action' reward state terminal"
| "ddpg_call NewEpisode ddpg = ddpg_new_episode ddpg"
| "ddpg_call (Train gamma rand) ddpg = ddpg_train ddpg gamma rand"

definition ddpg_calls :: "call list \<Rightarrow> DDPG \<Rightarrow> DDPG" where
  "ddpg_calls cs ddpg = fold ddpg_call cs ddpg"

text \<open>
  The tuples \<open>(prevState, action, reward, nextState, terminal flag)\<close> of the observations
  made while \<^verbatim>\<open>lastStateValid\<close> is set, in the order of the calls: \<open>prevState\<close> is the
  last state at the time of the call.
\<close>

fun observations :: "call list \<Rightarrow> DDPG \<Rightarrow> double list list" where
  "observations [] ddpg = []"
| "observations (Observe action' reward state terminal # cs) ddpg =
     (if lastStateValid ddpg
      then [take (stateSize ddpg) (lastState ddpg) @ take (actionSize ddpg) action' @ [reward]
            @ take (stateSize ddpg) state @ [if terminal > 0 then 1 else 0]]
      else [])
     @ observations cs (ddpg_call (Observe action' reward state terminal) ddpg)"
| "observations (c # cs) ddpg = observations cs (ddpg_call c ddpg)"

text \<open>The caller's arrays hold at least as many cells as the agent reads from them.\<close>

fun call_ok :: "nat \<Rightarrow> nat \<Rightarrow> call \<Rightarrow> bool" where
  "call_ok S A (Observe action' reward state terminal) \<longleftrightarrow> A \<le> length action' \<and> S \<le> length state"
| "call_ok S A _ \<longleftrightarrow> True"

text \<open>Row \<open>r\<close> of a matrix.\<close>

definition matrix_row :: "'a Matrix \<Rightarrow> nat \<Rightarrow> 'a list" where
  "matrix_row matrix r = take (columns matrix) (drop (r * columns matrix) (data matrix))"

text \<open>
  The state of the replay memory after the observations \<open>obs\<close> have been written to an
  agent of state size \<open>S\<close>, action size \<open>A\<close> and capacity \<open>M\<close>: the shapes are those of
  \<^verbatim>\<open>ddpg_create\<close>, \<^verbatim>\<open>memoryUsed\<close> and \<^verbatim>\<open>memoryIdx\<close> count the observations, and the row
  before \<^verbatim>\<open>memoryIdx\<close> (cyclically) holds the last one.
\<close>

definition replay_state :: "nat \<Rightarrow> nat \<Rightarrow> nat \<Rightarrow> DDPG \<Rightarrow> double list list \<Rightarrow> bool" where
  "replay_state S A M ddpg obs \<longleftrightarrow>
     stateSize ddpg = S \<and> actionSize ddpg = A \<and>
     rows (memory ddpg) = M \<and> columns (memory ddpg) = A + 2 * S + 2 \<and>
     length (data (memory ddpg)) = M * (A + 2 * S + 2) \<and>
     memorySize ddpg = M \<and> length (lastState ddpg) = S \<and>
     memoryUsed ddpg = min (length obs) M \<and> memoryIdx ddpg = length obs mod M \<and>
     (obs \<noteq> [] \<longrightarrow> matrix_row (memory ddpg) ((memoryIdx ddpg + M - 1) mod M) = last obs)"

text \<open>
  A small agent on which the properties are instantiated: states of size 2, actions of
  size 1, batches of one sample, a replay memory of four rows, and an actor and a critic
  without hidden layers. The networks of \<^verbatim>\<open>ddpg_create\<close> have these shapes; the weights
  are fixed here instead of drawn at random, and the buffers hold zeros.
\<close>

definition zeros :: "nat \<Rightarrow> nat \<Rightarrow> double Matrix" where
  "zeros r c = \<lparr>rows = r, columns = c, data = replicate (r * c) 0\<rparr>"

definition example_layer :: "nat \<Rightarrow> nat \<Rightarrow> nat \<Rightarrow> double list \<Rightarrow> int \<Rightarrow> Layer" where
  "example_layer inputSize outputSize B ws code =
     \<lparr>weights = \<lparr>rows = outputSize, columns = inputSize, data = ws\<rparr>,
      biases = zeros outputSize B, output = zeros outputSize B,
      errors = zeros B outputSize, deltas = zeros B outputSize,
      gradWeights = zeros outputSize inputSize, gradBiases = zeros outputSize B,
      activation = getActivationFunction code,
      activationDeriv = getActivationFunctionDeriv code\<rparr>"

definition example_mlp :: "nat \<Rightarrow> nat \<Rightarrow> nat \<Rightarrow> double list \<Rightarrow> int \<Rightarrow> MLP" where
  "example_mlp inputSize outputSize B ws code =
     \<lparr>depth = 0, batchSize = B, layers = [example_layer inputSize outputSize B ws code],
      input = zeros inputSize B, inputErrors = zeros B inputSize,
      mlp_output = zeros B outputSize\<rparr>"

text \<open>
  The optimizer \<^verbatim>\<open>adam_create\<close> gives for a network: the default parameters, and
  moments of the shapes of the weights and biases, cleared.
\<close>

definition example_adam :: "MLP \<Rightarrow> Adam" where
  "example_adam mlp =
     \<lparr>t = 0, alpha = 0.001, beta1 = 0.9, beta2 = 0.999, beta1t = 0.9, beta2t = 0.999,
      epsilon = 1 / 10000000, adam_depth = depth mlp + 1,
      mw = map (\<lambda>l. zeros (rows (weights l)) (columns (weights l))) (layers mlp),
      mb = map (\<lambda>l. zeros (rows (biases l)) (columns (biases l))) (layers mlp),
      vw = map (\<lambda>l. zeros (rows (weights l)) (columns (weights l))) (layers mlp),
      vb = map (\<lambda>l. zeros (rows (biases l)) (columns (biases l))) (layers mlp)\<rparr>"

definition example_ddpg :: DDPG where
  "example_ddpg =
     \<lparr>stateSize = 2, actionSize = 1, action = [0], noise = None,
      actor = example_mlp 2 1 1 [1 / 2, - 1 / 4] ACTIVATION_TANH,
      critic = example_mlp 3 1 1 [1 / 4, 1 / 2, - 1 / 2] ACTIVATION_LINEAR,
      actorTarget = example_mlp 2 1 1 [1 / 2, - 1 / 4] ACTIVATION_TANH,
      criticTarget = example_mlp 3 1 1 [1 / 4, 1 / 2, - 1 / 2] ACTIVATION_LINEAR,
      actorAdam = example_adam (example_mlp 2 1 1 [1 / 2, - 1 / 4] ACTIVATION_TANH),
      criticAdam = example_adam (example_mlp 3 1 1 [1 / 4, 1 / 2, - 1 / 2] ACTIVATION_LINEAR),
      actorInput = zeros 1 2, criticInput = zeros 1 3,
      actorErrors = zeros 1 1, criticErrors = zeros 1 1,
      ddpg_batchSize = 1, batchIndices = [0],
      memorySize = 4, memoryUsed = 0, memoryIdx = 0, memory = zeros 4 7,
      lastState = [0, 0], lastStateValid = False\<rparr>"

text \<open>A network with one hidden layer, of the shapes \<^verbatim>\<open>mlp_create(2, 1, 1, {2}, ...)\<close> gives.\<close>

definition example_hidden_mlp :: MLP where
  "example_hidden_mlp =
     \<lparr>depth = 1, batchSize = 1,
      layers = [example_layer 2 2 1 [1 / 2, 0, 0, 1 / 2] ACTIVATION_RELU,
                example_layer 2 1 1 [1, - 1] ACTIVATION_LINEAR],
      input = zeros 2 1, inputErrors = zeros 1 2, mlp_output = zeros 1 1\<rparr>"

text \<open>
  The bias-corrected moments of Adam for one parameter, from the stored moments \<open>m\<close> and
  \<open>v\<close> and the gradient \<open>g\<close>: \<open>m \<leftarrow> beta1 m + (1 - beta1) g\<close>, \<open>v \<leftarrow> beta2 v + (1 - beta2) g\<^sup>2\<close>,
  then division by \<open>1 - beta1t\<close> and \<open>1 - beta2t\<close>.
\<close>

definition adam_mhat :: "Adam \<Rightarrow> double \<Rightarrow> double \<Rightarrow> double" where
  "adam_mhat adam m g = (beta1 adam * m + (1 - beta1 adam) * g) / (1 - beta1t adam)"

definition adam_vhat :: "Adam \<Rightarrow> double \<Rightarrow> double \<Rightarrow> double" where
  "adam_vhat adam v g = (beta2 adam * v + (1 - beta2 adam) * g * g) / (1 - beta2t adam)"

text \<open>
  The binary formats: a matrix is its two shape fields followed by its cells, and the
  weights of a network are the weights and the biases of its layers \<open>0 .. depth\<close>, in
  this order.
\<close>

definition matrix_format :: "double Matrix \<Rightarrow> item list" where
  "matrix_format matrix =
     [I32 (int (rows matrix)), I32 (int (columns matrix))] @ map F64 (data matrix)"

definition weights_format :: "MLP \<Rightarrow> nat list \<Rightarrow> item list" where
  "weights_format mlp is =
     concat (map (\<lambda>i. matrix_format (weights (layers mlp ! i)) @ matrix_format (biases (layers mlp ! i))) is)"

text \<open>
  A parameter matrix as \<^verbatim>\<open>mlp_create_layer\<close> allocates it for positive sizes: its buffer
  has \<open>rows * columns\<close> cells, and at least one.
\<close>

definition parameter_matrix :: "double Matrix \<Rightarrow> bool" where
  "parameter_matrix matrix \<longleftrightarrow>
     length (data matrix) = rows matrix * columns matrix \<and> 0 < rows matrix * columns matrix"

text \<open>
  A network with \<open>depth + 1\<close> layers whose weights and biases are such matrices, and two
  networks of identical architecture: the same depth, and layer by layer the same shapes
  of weights and biases.
\<close>

definition parameters_ok :: "MLP \<Rightarrow> bool" where
  "parameters_ok mlp \<longleftrightarrow>
     length (layers mlp) = depth mlp + 1 \<and>
     (\<forall>i \<le> depth mlp. parameter_matrix (weights (layers mlp ! i))
                      \<and> parameter_matrix (biases (layers mlp ! i)))"

definition same_architecture :: "MLP \<Rightarrow> MLP \<Rightarrow> bool" where
  "same_architecture mlp1 mlp2 \<longleftrightarrow>
     depth mlp1 = depth mlp2 \<and>
     (\<forall>i \<le> depth mlp1.
        rows (weights (layers mlp1 ! i)) = rows (weights (layers mlp2 ! i)) \<and>
        columns (weights (layers mlp1 ! i)) = columns (weights (layers mlp2 ! i)) \<and>
        rows (biases (layers mlp1 ! i)) = rows (biases (layers mlp2 ! i)) \<and>
        columns (biases (layers mlp1 ! i)) = columns (biases (layers mlp2 ! i)))"

text \<open>Closing a file and opening it again for reading puts the file position at its start.\<close>

definition reopen :: "FILE option \<Rightarrow> FILE option" where
  "reopen file = map_option (\<lambda>f. f\<lparr>position := 0\<rparr>) file"

text \<open>
  The layers of a network after the weights and biases of the layers \<open>ns\<close> of the
  network \<open>src\<close> have been copied into the buffers of its own weights and biases.
\<close>

definition loaded_layers :: "MLP \<Rightarrow> nat list \<Rightarrow> Layer list \<Rightarrow> Layer list" where
  "loaded_layers src ns ls =
     fold (\<lambda>i ls. ls[i := (ls ! i)\<lparr>weights := (weights (ls ! i))\<lparr>data := data (weights (layers src ! i))\<rparr>,
                                    biases := (biases (ls ! i))\<lparr>data := data (biases (layers src ! i))\<rparr>\<rparr>])
       ns ls"

text \<open>
  Layer \<open>i\<close> of the network \<open>mlp\<close> can take the weights and biases of layer \<open>i\<close> of \<open>src\<close>:
  they have the same shapes, and the buffers have the sizes of the shapes.
\<close>

definition layer_matches :: "MLP \<Rightarrow> MLP \<Rightarrow> nat \<Rightarrow> bool" where
  "layer_matches src mlp i \<longleftrightarrow>
     i < length (layers mlp) \<and>
     parameter_matrix (weights (layers src ! i)) \<and> parameter_matrix (biases (layers src ! i)) \<and>
     rows (weights (layers mlp ! i)) = rows (weights (layers src ! i)) \<and>
     columns (weights (layers mlp ! i)) = columns (weights (layers src ! i)) \<and>
     length (data (weights (layers mlp ! i)))
       = rows (weights (layers mlp ! i)) * columns (weights (layers mlp ! i)) \<and>
     rows (biases (layers mlp ! i)) = rows (biases (layers src ! i)) \<and>
     columns (biases (layers mlp ! i)) = columns (biases (layers src ! i)) \<and>
     length (data (biases (layers mlp ! i)))
       = rows (biases (layers mlp ! i)) * columns (biases (layers mlp ! i))"

text \<open>
  An actor with one hidden layer of width 0, as \<^verbatim>\<open>mlp_create(2, 1, 1, {0}, ...)\<close> builds
  it: both of its weight matrices have no cell.
\<close>

definition example_bottleneck_mlp :: MLP where
  "example_bottleneck_mlp =
     \<lparr>depth = 1, batchSize = 1,
      layers = [example_layer 2 0 1 [] ACTIVATION_RELU, example_layer 0 1 1 [] ACTIVATION_TANH],
      input = zeros 2 1, inputErrors = zeros 1 2, mlp_output = zeros 1 1\<rparr>"

section \<open>Loops that write into a buffer\<close>

lemma fold_update_length:
  "length (fold (\<lambda>x d. d[idx x := val x d]) xs d) = length d"
  by (induction xs arbitrary: d) simp_all

lemma fold_update_other:
  "j \<notin> idx ` set xs \<Longrightarrow> fold (\<lambda>x d. d[idx x := val x d]) xs d ! j = d ! j"
  by (induction xs arbitrary: d) auto

lemma fold_update_nth:
  "inj_on idx (set xs) \<Longrightarrow> x \<in> set xs \<Longrightarrow> idx x < length d \<Longrightarrow>
   fold (\<lambda>x d. d[idx x := val x]) xs d ! idx x = val x"
proof (induction xs arbitrary: d)
  case Nil
  then show ?case by simp
next
  case (Cons y ys)
  show ?case
  proof (cases "x \<in> set ys")
    case True
    with Cons show ?thesis by (simp add: inj_on_def)
  next
    case False
    with Cons.prems have xy: "x = y" by simp
    from Cons.prems False have "idx x \<notin> idx ` set ys"
      by (auto simp: inj_on_def)
    then have "fold (\<lambda>x d. d[idx x := val x]) ys (d[idx y := val y]) ! idx x
                 = d[idx y := val y] ! idx x"
      by (rule fold_update_other)
    with xy Cons.prems show ?thesis by simp
  qed
qed

lemma fold_pointwise_nth:
  "j < length d \<Longrightarrow>
   fold (\<lambda>i d. d[i := g i (d ! i)]) [0..<n] d ! j = (if j < n then g j (d ! j) else d ! j)"
proof (induction n arbitrary: j)
  case 0
  then show ?case by simp
next
  case (Suc n)
  have len: "length (fold (\<lambda>i d. d[i := g i (d ! i)]) [0..<n] d) = length d"
    by (rule fold_update_length)
  show ?case
  proof (cases "j = n")
    case True
    with Suc.prems Suc.IH[of n] len show ?thesis by simp
  next
    case False
    with Suc.prems Suc.IH[of j] show ?thesis by (simp add: less_Suc_eq)
  qed
qed

lemma fold_product:
  "fold (\<lambda>a. fold (f a) ys) xs = fold (\<lambda>(a, b). f a b) (List.product xs ys)"
  by (induction xs) (simp_all add: fold_map comp_def)

lemma nested_update_length:
  "length (fold (\<lambda>a. fold (\<lambda>b d. d[idx a b := val a b]) ys) xs d) = length d"
  by (simp add: fold_product case_prod_unfold fold_update_length)

lemma nested_update_nth:
  assumes "a \<in> set xs" "b \<in> set ys" "idx a b < length d"
    and "\<And>a b a' b'. a \<in> set xs \<Longrightarrow> b \<in> set ys \<Longrightarrow> a' \<in> set xs \<Longrightarrow> b' \<in> set ys \<Longrightarrow>
           idx a b = idx a' b' \<Longrightarrow> a = a' \<and> b = b'"
  shows "fold (\<lambda>a. fold (\<lambda>b d. d[idx a b := val a b]) ys) xs d ! idx a b = val a b"
proof -
  have inj: "inj_on (\<lambda>p. idx (fst p) (snd p)) (set (List.product xs ys))"
    using assms(4) by (auto simp: inj_on_def)
  have "fold (\<lambda>p d. d[idx (fst p) (snd p) := val (fst p) (snd p)]) (List.product xs ys) d
          ! idx (fst (a, b)) (snd (a, b)) = val (fst (a, b)) (snd (a, b))"
    using inj assms(1-3)
    by (intro fold_update_nth[where idx = "\<lambda>p. idx (fst p) (snd p)" and val = "\<lambda>p. val (fst p) (snd p)"]) auto
  then show ?thesis
    by (simp add: fold_product case_prod_unfold)
qed

lemma cursor_inner:
  "fold (\<lambda>col (p, d). (p + 1, d[p := v col])) [0..<C] (p0, d0)
     = (p0 + C, fold (\<lambda>col d. d[p0 + col := v col]) [0..<C] d0)"
  by (induction C) simp_all

lemma cursor_outer:
  "fold (\<lambda>row. fold (\<lambda>col (p, d). (p + 1, d[p := v row col])) [0..<C]) [0..<R] (0, d0)
     = (R * C, fold (\<lambda>row. fold (\<lambda>col d. d[row * C + col := v row col]) [0..<C]) [0..<R] d0)"
  by (induction R) (simp_all add: cursor_inner[simplified] add.commute)

lemma row_major_inj:
  "a < (C::nat) \<Longrightarrow> a' < C \<Longrightarrow> b * C + a = b' * C + a' \<Longrightarrow> b = b' \<and> a = a'"
  by (metis add.commute add_diff_cancel_left' div_mult_self3 div_less less_nat_zero_code mod_less mod_mult_self3 add_cancel_right_left)

lemma row_major_bound:
  "a < (R::nat) \<Longrightarrow> b < C \<Longrightarrow> a * C + b < R * C"
proof -
  assume a: "a < R" and b: "b < C"
  have "a * C + b < Suc a * C" using b by simp
  also have "\<dots> \<le> R * C" using a by (intro mult_le_mono1) simp
  finally show ?thesis .
qed

lemma row_major_update_nth:
  assumes "a < R" "b < C" "R * C \<le> length d"
  shows "fold (\<lambda>a. fold (\<lambda>b d. d[a * C + b := val a b]) [0..<C]) [0..<R] d ! (a * C + b) = val a b"
proof (rule nested_update_nth[where idx = "\<lambda>a b. a * C + b"])
  show "a \<in> set [0..<R]" using assms by simp
  show "b \<in> set [0..<C]" using assms by simp
  show "a * C + b < length d" using row_major_bound[OF assms(1,2)] assms(3) by simp
  fix a b a' b'
  assume "a \<in> set [0..<R]" "b \<in> set [0..<C]" "a' \<in> set [0..<R]" "b' \<in> set [0..<C]"
    "a * C + b = a' * C + b'"
  then show "a = a' \<and> b = b'"
    using row_major_inj[of b C b' a a'] by simp
qed

lemma col_major_update_nth:
  assumes "a < C" "b < R" "R * C \<le> length d"
  shows "fold (\<lambda>a. fold (\<lambda>b d. d[b * C + a := val a b]) [0..<R]) [0..<C] d ! (b * C + a) = val a b"
proof (rule nested_update_nth[where idx = "\<lambda>a b. b * C + a"])
  show "a \<in> set [0..<C]" using assms by simp
  show "b \<in> set [0..<R]" using assms by simp
  show "b * C + a < length d" using row_major_bound[OF assms(2,1)] assms(3) by simp
  fix a b a' b'
  assume "a \<in> set [0..<C]" "b \<in> set [0..<R]" "a' \<in> set [0..<C]" "b' \<in> set [0..<R]"
    "b * C + a = b' * C + a'"
  then show "a = a' \<and> b = b'"
    using row_major_inj[of a C a' b b'] by simp
qed

section \<open>Matrix product and transposition\<close>

lemma matrix_dot_data:
  "data (matrix_dot A B R) =
     fold (\<lambda>row. fold (\<lambda>col d. d[row * columns R + col := dot_loop A B row col]) [0..<columns R])
       [0..<rows R] (data R)"
  by (simp add: matrix_dot_def cursor_outer[simplified])

lemma matrix_dot_nth:
  assumes "length (data R) = rows R * columns R" "a < rows R" "b < columns R"
  shows "data (matrix_dot A B R) ! (a * columns R + b) = dot_loop A B a b"
  using assms by (simp add: matrix_dot_data row_major_update_nth)

lemma matrix_dot_transpose_nth:
  assumes "length (data R) = rows R * columns R" "a < columns R" "b < rows R"
  shows "data (matrix_dot_transpose A B R) ! (b * columns R + a) = dot_loop A B a b"
  using assms by (simp add: matrix_dot_transpose_def col_major_update_nth)

lemma matrix_transpose_nth:
  assumes "length (data R) = rows R * columns R" "rows R = columns M" "columns R = rows M"
    and "a < rows M" "b < columns M"
  shows "data (matrix_transpose M R) ! (b * columns R + a) = data M ! (a * columns M + b)"
  using assms by (simp add: matrix_transpose_def col_major_update_nth)

text \<open>
  C7. For matrices \<open>A\<close> and \<open>B\<close> with \<open>A.columns = B.rows\<close>, a result of shape
  \<open>B.columns \<times> A.rows\<close> and any cell type, \<^verbatim>\<open>matrix_dot_transpose\<close> writes exactly the
  matrix that \<^verbatim>\<open>matrix_dot\<close> followed by \<^verbatim>\<open>matrix_transpose\<close> writes: the two results are
  the same matrix, and cell \<open>(i, j)\<close> of the first is cell \<open>(j, i)\<close> of the product. Both
  functions run the same inner loop, with the same order of summation, and no law of
  addition or multiplication is used: the equality is exact under any arithmetic of the
  cells.
\<close>

theorem dot_transpose_is_transpose_of_dot:
  fixes A B R1 R2 :: "'a::{zero,plus,times} Matrix"
  assumes "columns A = rows B"
    and "rows R1 = rows A" "columns R1 = columns B" "length (data R1) = rows R1 * columns R1"
    and "rows R2 = columns B" "columns R2 = rows A" "length (data R2) = rows R2 * columns R2"
  shows "matrix_dot_transpose A B R2 = matrix_transpose (matrix_dot A B R1) R2
       \<and> (\<forall>i<columns B. \<forall>j<rows A.
            MATRIX (matrix_dot_transpose A B R2) i j = MATRIX (matrix_dot A B R1) j i)"
proof -
  let ?M = "matrix_dot A B R1"
  have shapeM: "rows ?M = rows A" "columns ?M = columns B"
    using assms by (simp_all add: matrix_dot_def)
  have T: "data (matrix_dot_transpose A B R2) ! (i * rows A + j) = dot_loop A B j i"
    if "i < columns B" "j < rows A" for i j
    using matrix_dot_transpose_nth[of R2 j i A B] that assms by simp
  have D: "data ?M ! (j * columns B + i) = dot_loop A B j i"
    if "i < columns B" "j < rows A" for i j
    using matrix_dot_nth[of R1 j i A B] that assms by simp
  have U: "data (matrix_transpose ?M R2) ! (i * rows A + j) = dot_loop A B j i"
    if "i < columns B" "j < rows A" for i j
    using matrix_transpose_nth[of R2 ?M j i] that assms shapeM D[OF that] by simp
  have "data (matrix_dot_transpose A B R2) = data (matrix_transpose ?M R2)"
  proof (rule nth_equalityI)
    show "length (data (matrix_dot_transpose A B R2)) = length (data (matrix_transpose ?M R2))"
      by (simp add: matrix_dot_transpose_def matrix_transpose_def nested_update_length)
  next
    fix k assume "k < length (data (matrix_dot_transpose A B R2))"
    then have k: "k < columns B * rows A"
      using assms by (simp add: matrix_dot_transpose_def nested_update_length)
    then have pos: "0 < rows A" by (cases "rows A") simp_all
    have i: "k div rows A < columns B"
      using k pos by (simp add: less_mult_imp_div_less)
    have j: "k mod rows A < rows A" using pos by simp
    have "k = (k div rows A) * rows A + k mod rows A" by simp
    then show "data (matrix_dot_transpose A B R2) ! k = data (matrix_transpose ?M R2) ! k"
      using T[OF i j] U[OF i j] by simp
  qed
  then have whole: "matrix_dot_transpose A B R2 = matrix_transpose ?M R2"
    by (simp add: matrix_dot_transpose_def matrix_transpose_def)
  have "MATRIX (matrix_dot_transpose A B R2) i j = MATRIX ?M j i"
    if "i < columns B" "j < rows A" for i j
    using T[OF that] D[OF that] assms shapeM
    by (simp add: MATRIX_def matrix_dot_transpose_def)
  with whole show ?thesis by blast
qed

theorem dot_transpose_is_transpose_of_dot_witness:
  "matrix_dot_transpose
       \<lparr>rows = 2, columns = 2, data = [1, 2, 3, 4 :: int]\<rparr>
       \<lparr>rows = 2, columns = 3, data = [1, 0, 2, 0, 1, 3]\<rparr>
       \<lparr>rows = 3, columns = 2, data = [0, 0, 0, 0, 0, 0]\<rparr>
     = matrix_transpose
         (matrix_dot \<lparr>rows = 2, columns = 2, data = [1, 2, 3, 4]\<rparr>
                     \<lparr>rows = 2, columns = 3, data = [1, 0, 2, 0, 1, 3]\<rparr>
                     \<lparr>rows = 2, columns = 3, data = [0, 0, 0, 0, 0, 0]\<rparr>)
         \<lparr>rows = 3, columns = 2, data = [0, 0, 0, 0, 0, 0]\<rparr>
   \<and> data (matrix_dot_transpose
       \<lparr>rows = 2, columns = 2, data = [1, 2, 3, 4 :: int]\<rparr>
       \<lparr>rows = 2, columns = 3, data = [1, 0, 2, 0, 1, 3]\<rparr>
       \<lparr>rows = 3, columns = 2, data = [0, 0, 0, 0, 0, 0]\<rparr>) = [1, 3, 2, 4, 8, 18]"
proof -
  have "data (matrix_dot_transpose
       \<lparr>rows = 2, columns = 2, data = [1, 2, 3, 4 :: int]\<rparr>
       \<lparr>rows = 2, columns = 3, data = [1, 0, 2, 0, 1, 3]\<rparr>
       \<lparr>rows = 3, columns = 2, data = [0, 0, 0, 0, 0, 0]\<rparr>) = [1, 3, 2, 4, 8, 18]"
    by code_simp
  then show ?thesis
    using dot_transpose_is_transpose_of_dot
      [of "\<lparr>rows = 2, columns = 2, data = [1, 2, 3, 4 :: int]\<rparr>"
          "\<lparr>rows = 2, columns = 3, data = [1, 0, 2, 0, 1, 3]\<rparr>"
          "\<lparr>rows = 2, columns = 3, data = [0, 0, 0, 0, 0, 0]\<rparr>"
          "\<lparr>rows = 3, columns = 2, data = [0, 0, 0, 0, 0, 0]\<rparr>"]
    by simp
qed

section \<open>Rounding\<close>

text \<open>Powers of two, and the binade of a positive number.\<close>

lemma pow2_pos [simp]: "0 < pow2 k"
  by (simp add: pow2_def)

lemma pow2_nonneg [simp]: "0 \<le> pow2 k"
  by (simp add: pow2_def)

lemma pow2_0 [simp]: "pow2 0 = 1"
  by (simp add: pow2_def)

lemma pow2_add: "pow2 (a + b) = pow2 a * pow2 b"
  by (simp add: pow2_def powr_add)

lemma pow2_diff: "pow2 (a - b) = pow2 a / pow2 b"
  by (simp add: pow2_def powr_diff)

lemma pow2_mono: "a \<le> b \<Longrightarrow> pow2 a \<le> pow2 b"
  by (simp add: pow2_def)

lemma pow2_nat: "pow2 (int n) = 2 ^ n"
  by (simp add: pow2_def powr_realpow)

lemma pow2_neg: "pow2 (- int n) = 1 / 2 ^ n"
  by (simp add: pow2_def powr_minus powr_realpow inverse_eq_divide)

lemma pow2_numeral [simp]: "pow2 (numeral n) = 2 ^ numeral n"
  using pow2_nat[of "numeral n"] by simp

lemma pow2_neg_numeral [simp]: "pow2 (- numeral n) = 1 / 2 ^ numeral n"
  using pow2_neg[of "numeral n"] by simp

lemma pow2_1 [simp]: "pow2 1 = 2"
  by (simp add: pow2_def)

lemma floor_log_bounds:
  assumes "0 < a"
  shows "pow2 \<lfloor>log 2 a\<rfloor> \<le> a" and "a < pow2 (\<lfloor>log 2 a\<rfloor> + 1)"
proof -
  have "of_int \<lfloor>log 2 a\<rfloor> \<le> log 2 a" by simp
  then show "pow2 \<lfloor>log 2 a\<rfloor> \<le> a"
    unfolding pow2_def using assms le_log_iff[of 2 a "of_int \<lfloor>log 2 a\<rfloor>"] by simp
  have "log 2 a < of_int (\<lfloor>log 2 a\<rfloor> + 1)" by linarith
  then show "a < pow2 (\<lfloor>log 2 a\<rfloor> + 1)"
    unfolding pow2_def using assms log_less_iff[of 2 a "of_int (\<lfloor>log 2 a\<rfloor> + 1)"] by simp
qed

lemma floor_log_unique:
  assumes "pow2 e \<le> a" and "a < pow2 (e + 1)"
  shows "\<lfloor>log 2 a\<rfloor> = e"
proof -
  have pos: "0 < a" using assms(1) pow2_pos[of e] by linarith
  have "of_int e \<le> log 2 a"
    using assms(1) pos le_log_iff[of 2 a "of_int e"] unfolding pow2_def by simp
  moreover have "log 2 a < of_int (e + 1)"
    using assms(2) pos log_less_iff[of 2 a "of_int (e + 1)"] unfolding pow2_def by simp
  ultimately show ?thesis by linarith
qed

lemma round_half_even_of_int [simp]: "round_half_even (of_int n) = n"
  by (simp add: round_half_even_def)

lemma round_half_even_mono:
  assumes "x \<le> y"
  shows "round_half_even x \<le> round_half_even y"
proof (cases "\<lfloor>x\<rfloor> = \<lfloor>y\<rfloor>")
  case True
  then show ?thesis using assms by (auto simp add: round_half_even_def)
next
  case False
  have "\<lfloor>x\<rfloor> \<le> \<lfloor>y\<rfloor>" using assms by (rule floor_mono)
  then have lt: "\<lfloor>x\<rfloor> + 1 \<le> \<lfloor>y\<rfloor>" using False by linarith
  have "round_half_even x \<le> \<lfloor>x\<rfloor> + 1" by (simp add: round_half_even_def)
  moreover have "\<lfloor>y\<rfloor> \<le> round_half_even y" by (simp add: round_half_even_def)
  ultimately show ?thesis using lt by linarith
qed

lemma round_half_even_error: "\<bar>of_int (round_half_even x) - x\<bar> \<le> 1 / 2"
proof -
  have "of_int \<lfloor>x\<rfloor> \<le> x" "x < of_int \<lfloor>x\<rfloor> + 1" by linarith+
  then show ?thesis by (auto simp add: round_half_even_def)
qed

lemma round_half_even_ge: "of_int n \<le> x \<Longrightarrow> n \<le> round_half_even x"
  using round_half_even_mono[of "of_int n" x] by simp

lemma round_half_even_le: "x \<le> of_int n \<Longrightarrow> round_half_even x \<le> n"
  using round_half_even_mono[of x "of_int n"] by simp

text \<open>The exponent and the spacing of the doubles around a number.\<close>

lemma pow2_neq_0 [simp]: "pow2 k \<noteq> 0"
  using pow2_pos[of k] by linarith

lemma exponent_upper:
  assumes "x \<noteq> 0"
  shows "\<bar>x\<bar> < pow2 (exponent x + 1)"
proof -
  have "\<bar>x\<bar> < pow2 (\<lfloor>log 2 \<bar>x\<bar>\<rfloor> + 1)"
    using assms by (simp add: floor_log_bounds(2))
  moreover have "pow2 (\<lfloor>log 2 \<bar>x\<bar>\<rfloor> + 1) \<le> pow2 (exponent x + 1)"
    by (rule pow2_mono) (simp add: exponent_def)
  ultimately show ?thesis by linarith
qed

lemma exponent_eq:
  assumes "pow2 e \<le> \<bar>x\<bar>" and "\<bar>x\<bar> < pow2 (e + 1)"
  shows "exponent x = max e (- 1022)"
  using floor_log_unique[OF assms] by (simp add: exponent_def)

lemma exponent_normal:
  assumes "pow2 (- 1022) \<le> \<bar>x\<bar>"
  shows "pow2 (exponent x) \<le> \<bar>x\<bar>"
proof -
  have pos: "0 < \<bar>x\<bar>" using assms pow2_pos[of "- 1022"] by linarith
  have "of_int (- 1022) \<le> log 2 \<bar>x\<bar>"
    using assms pos le_log_iff[of 2 "\<bar>x\<bar>" "of_int (- 1022)"] unfolding pow2_def by simp
  then have "- 1022 \<le> \<lfloor>log 2 \<bar>x\<bar>\<rfloor>" by (simp add: le_floor_iff)
  then have "exponent x = \<lfloor>log 2 \<bar>x\<bar>\<rfloor>" by (simp add: exponent_def)
  then show ?thesis using floor_log_bounds(1)[OF pos] by simp
qed

lemma exponent_ge [simp]: "- 1022 \<le> exponent x"
  by (simp add: exponent_def)

lemma exponent_mono:
  assumes "x \<noteq> 0" and "\<bar>x\<bar> \<le> \<bar>y\<bar>"
  shows "exponent x \<le> exponent y"
proof -
  have "log 2 \<bar>x\<bar> \<le> log 2 \<bar>y\<bar>" using assms by simp
  then have "\<lfloor>log 2 \<bar>x\<bar>\<rfloor> \<le> \<lfloor>log 2 \<bar>y\<bar>\<rfloor>" by (rule floor_mono)
  then show ?thesis by (simp add: exponent_def)
qed

lemma exponent_minus [simp]: "exponent (- x) = exponent x"
  by (simp add: exponent_def)

lemma exponent_abs [simp]: "exponent \<bar>x\<bar> = exponent x"
  by (simp add: exponent_def)

lemma ulp_pos [simp]: "0 < ulp x"
  by (simp add: ulp_def)

lemma ulp_nonneg [simp]: "0 \<le> ulp x"
  by (simp add: ulp_def)

lemma ulp_neq_0 [simp]: "ulp x \<noteq> 0"
  by (simp add: ulp_def)

lemma ulp_minus [simp]: "ulp (- x) = ulp x"
  by (simp add: ulp_def)

lemma ulp_abs [simp]: "ulp \<bar>x\<bar> = ulp x"
  by (simp add: ulp_def)

lemma pow2_split: "pow2 (e + 1) = 2 ^ 53 * pow2 (e - 52)"
proof -
  have "pow2 (e + 1) = pow2 (53 + (e - 52))" by (rule arg_cong[of _ _ pow2]) simp
  also have "\<dots> = pow2 53 * pow2 (e - 52)" by (rule pow2_add)
  finally show ?thesis by simp
qed

lemma pow2_split': "pow2 e = 2 ^ 52 * pow2 (e - 52)"
proof -
  have "pow2 e = pow2 (52 + (e - 52))" by (rule arg_cong[of _ _ pow2]) simp
  also have "\<dots> = pow2 52 * pow2 (e - 52)" by (rule pow2_add)
  finally show ?thesis by simp
qed

lemma scaled_upper:
  assumes "x \<noteq> 0"
  shows "\<bar>x\<bar> / ulp x < 2 ^ 53"
proof -
  have "\<bar>x\<bar> < 2 ^ 53 * ulp x"
    using exponent_upper[OF assms] pow2_split[of "exponent x"] by (simp add: ulp_def)
  then show ?thesis by (simp add: pos_divide_less_eq)
qed

lemma scaled_lower:
  assumes "pow2 (- 1022) \<le> \<bar>x\<bar>"
  shows "2 ^ 52 \<le> \<bar>x\<bar> / ulp x"
proof -
  have "2 ^ 52 * ulp x \<le> \<bar>x\<bar>"
    using exponent_normal[OF assms] pow2_split'[of "exponent x"] by (simp add: ulp_def)
  then show ?thesis by (simp add: pos_le_divide_eq)
qed

lemma mantissa_upper:
  assumes "x \<noteq> 0"
  shows "round_half_even (\<bar>x\<bar> / ulp x) \<le> 2 ^ 53"
proof -
  have "\<bar>x\<bar> / ulp x \<le> of_int (2 ^ 53)" using scaled_upper[OF assms] by simp
  then show ?thesis by (rule round_half_even_le)
qed

lemma mantissa_lower:
  assumes "pow2 (- 1022) \<le> \<bar>x\<bar>"
  shows "2 ^ 52 \<le> round_half_even (\<bar>x\<bar> / ulp x)"
proof -
  have "of_int (2 ^ 52) \<le> \<bar>x\<bar> / ulp x" using scaled_lower[OF assms] by simp
  then show ?thesis by (rule round_half_even_ge)
qed

lemma mantissa_nonneg: "0 \<le> round_half_even (\<bar>x\<bar> / ulp x)"
proof -
  have "of_int 0 \<le> \<bar>x\<bar> / ulp x" by simp
  then show ?thesis by (rule round_half_even_ge)
qed

lemma round_double_0 [simp]: "round_double 0 = 0"
  by (simp add: round_double_def)

lemma round_double_minus: "round_double (- x) = - round_double x"
  by (simp add: round_double_def sgn_minus)

lemma round_double_pos: "0 < x \<Longrightarrow> round_double x = of_int (round_half_even (x / ulp x)) * ulp x"
  by (simp add: round_double_def)

lemma round_double_nonneg: "0 \<le> x \<Longrightarrow> 0 \<le> round_double x"
  using mantissa_nonneg[of x] by (cases "x = 0") (simp_all add: round_double_pos)

lemma round_double_exact:
  assumes m: "\<bar>m\<bar> < 2 ^ 53" and j: "- 1074 \<le> j"
  shows "round_double (of_int m * pow2 j) = of_int m * pow2 j"
proof (cases "m = 0")
  case True
  then show ?thesis by simp
next
  case False
  define x where "x = of_int m * pow2 j"
  have absx: "\<bar>x\<bar> = of_int \<bar>m\<bar> * pow2 j" by (simp add: x_def abs_mult)
  have x0: "x \<noteq> 0" using False by (simp add: x_def)
  have "of_int \<bar>m\<bar> < (2::real) ^ 53" using m by (metis of_int_less_iff of_int_numeral of_int_power)
  then have "\<bar>x\<bar> < 2 ^ 53 * pow2 j" by (simp add: absx)
  also have "\<dots> = pow2 (53 + j)" using pow2_add[of 53 j] by simp
  also have "\<dots> = pow2 (j + 53)" by (rule arg_cong[of _ _ pow2]) simp
  finally have lt: "\<bar>x\<bar> < pow2 (j + 53)" .
  have "log 2 \<bar>x\<bar> < of_int (j + 53)"
    using lt x0 log_less_iff[of 2 "\<bar>x\<bar>" "of_int (j + 53)"] unfolding pow2_def by simp
  then have "\<lfloor>log 2 \<bar>x\<bar>\<rfloor> < j + 53" by (simp add: floor_less_iff)
  then have E: "exponent x \<le> j + 52" using j by (simp add: exponent_def)
  define k where "k = nat (j + 52 - exponent x)"
  have "j = int k + (exponent x - 52)" using E by (simp add: k_def)
  then have "pow2 j = pow2 (int k + (exponent x - 52))" by (rule arg_cong[of _ _ pow2])
  also have "\<dots> = 2 ^ k * ulp x" by (simp only: pow2_add pow2_nat ulp_def)
  finally have pj: "pow2 j = 2 ^ k * ulp x" .
  have "\<bar>x\<bar> / ulp x = of_int (\<bar>m\<bar> * 2 ^ k)" by (simp add: absx pj)
  then have "round_half_even (\<bar>x\<bar> / ulp x) = \<bar>m\<bar> * 2 ^ k" by (simp only: round_half_even_of_int)
  then have "round_double x = sgn x * \<bar>x\<bar>"
    by (simp add: round_double_def absx pj)
  then show ?thesis by (simp add: x_def[symmetric] mult_sgn_abs)
qed

lemma round_double_pow2: "- 1074 \<le> j \<Longrightarrow> round_double (pow2 j) = pow2 j"
  using round_double_exact[of 1 j] by simp

lemma round_double_of_int: "\<bar>m\<bar> < 2 ^ 53 \<Longrightarrow> round_double (of_int m) = of_int m"
  using round_double_exact[of m 0] by simp

lemma round_double_1 [simp]: "round_double 1 = 1"
  using round_double_of_int[of 1] by simp

text \<open>
  Rounding does not change the order, returns a double, and moves a number by half the
  spacing at most.
\<close>

lemma round_double_pos_mono:
  assumes a: "0 < a" and ab: "a \<le> b"
  shows "round_double a \<le> round_double b"
proof -
  have b: "0 < b" using a ab by linarith
  have E: "exponent a \<le> exponent b" using a ab by (intro exponent_mono) simp_all
  show ?thesis
  proof (cases "exponent a = exponent b")
    case True
    then have u: "ulp a = ulp b" by (simp add: ulp_def)
    have "a / ulp b \<le> b / ulp b" using ab by (simp add: divide_right_mono)
    then have "round_half_even (a / ulp b) \<le> round_half_even (b / ulp b)"
      by (rule round_half_even_mono)
    then have "(of_int (round_half_even (a / ulp b)) :: real) \<le> of_int (round_half_even (b / ulp b))"
      by simp
    then have "of_int (round_half_even (a / ulp b)) * ulp b \<le> of_int (round_half_even (b / ulp b)) * ulp b"
      by (rule mult_right_mono) simp
    then show ?thesis using a b u by (simp add: round_double_pos)
  next
    case False
    then have lt: "exponent a + 1 \<le> exponent b" using E by linarith
    then have "- 1022 < exponent b" using exponent_ge[of a] by linarith
    then have "exponent b = \<lfloor>log 2 \<bar>b\<bar>\<rfloor>" by (simp add: exponent_def max_def split: if_splits)
    then have "pow2 (exponent b) \<le> \<bar>b\<bar>" using floor_log_bounds(1)[of "\<bar>b\<bar>"] b by simp
    then have "of_int (2 ^ 52) \<le> \<bar>b\<bar> / ulp b"
      using pow2_split'[of "exponent b"] by (simp add: ulp_def pos_le_divide_eq)
    then have "2 ^ 52 \<le> round_half_even (\<bar>b\<bar> / ulp b)" by (rule round_half_even_ge)
    then have "(2 ^ 52 :: real) \<le> of_int (round_half_even (\<bar>b\<bar> / ulp b))"
      by (metis of_int_le_iff of_int_numeral of_int_power)
    then have "2 ^ 52 * ulp b \<le> of_int (round_half_even (\<bar>b\<bar> / ulp b)) * ulp b"
      by (rule mult_right_mono) simp
    then have lower: "pow2 (exponent b) \<le> round_double b"
      using b pow2_split'[of "exponent b"] by (simp add: round_double_pos ulp_def)
    have "round_half_even (\<bar>a\<bar> / ulp a) \<le> 2 ^ 53" using a by (intro mantissa_upper) simp
    then have "(of_int (round_half_even (\<bar>a\<bar> / ulp a)) :: real) \<le> 2 ^ 53"
      by (metis of_int_le_iff of_int_numeral of_int_power)
    then have "of_int (round_half_even (\<bar>a\<bar> / ulp a)) * ulp a \<le> 2 ^ 53 * ulp a"
      by (rule mult_right_mono) simp
    then have "round_double a \<le> pow2 (exponent a + 1)"
      using a pow2_split[of "exponent a"] by (simp add: round_double_pos ulp_def)
    moreover have "pow2 (exponent a + 1) \<le> pow2 (exponent b)" using lt by (rule pow2_mono)
    ultimately show ?thesis using lower by linarith
  qed
qed

lemma round_double_nonpos: "x \<le> 0 \<Longrightarrow> round_double x \<le> 0"
  using round_double_nonneg[of "- x"] by (simp add: round_double_minus)

lemma round_double_mono:
  assumes "x \<le> y"
  shows "round_double x \<le> round_double y"
proof -
  consider "0 < x" | "x \<le> 0" "0 \<le> y" | "y < 0" by linarith
  then show ?thesis
  proof cases
    case 1
    then show ?thesis using assms by (rule round_double_pos_mono)
  next
    case 2
    then show ?thesis using round_double_nonpos[of x] round_double_nonneg[of y] by linarith
  next
    case 3
    then have "round_double (- y) \<le> round_double (- x)"
      using assms by (intro round_double_pos_mono) simp_all
    then show ?thesis by (simp add: round_double_minus)
  qed
qed

lemma round_double_idem: "round_double (round_double x) = round_double x"
proof (cases "x = 0")
  case True
  then show ?thesis by simp
next
  case False
  define k where "k = round_half_even (\<bar>x\<bar> / ulp x)"
  define s :: int where "s = (if 0 < x then 1 else - 1)"
  have sx: "sgn x = of_int s" using False by (simp add: s_def sgn_if)
  have k0: "0 \<le> k" unfolding k_def by (rule mantissa_nonneg)
  have k53: "k \<le> 2 ^ 53" unfolding k_def using False by (rule mantissa_upper)
  have r: "round_double x = of_int (s * k) * pow2 (exponent x - 52)"
    by (simp add: round_double_def sx k_def ulp_def)
  have j: "- 1074 \<le> exponent x - 52" using exponent_ge[of x] by linarith
  show ?thesis
  proof (cases "k = 2 ^ 53")
    case True
    have "of_int (s * k) * pow2 (exponent x - 52) = of_int s * (2 ^ 53 * pow2 (exponent x - 52))"
      using True by simp
    also have "\<dots> = of_int s * pow2 (exponent x + 1)" by (simp only: pow2_split)
    finally have r': "round_double x = of_int s * pow2 (exponent x + 1)" using r by simp
    have "\<bar>s\<bar> < 2 ^ 53" by (simp add: s_def)
    moreover have "- 1074 \<le> exponent x + 1" using exponent_ge[of x] by linarith
    ultimately show ?thesis unfolding r' by (rule round_double_exact)
  next
    case False
    then have "\<bar>s * k\<bar> < 2 ^ 53" using k0 k53 by (simp add: s_def abs_mult)
    then show ?thesis unfolding r using j by (rule round_double_exact)
  qed
qed

lemma round_double_error: "\<bar>round_double x - x\<bar> \<le> ulp x / 2"
proof -
  define k where "k = round_half_even (\<bar>x\<bar> / ulp x)"
  have "round_double x - x = sgn x * (of_int k * ulp x) - sgn x * \<bar>x\<bar>"
    by (simp add: round_double_def k_def mult_sgn_abs)
  also have "\<dots> = sgn x * (of_int k * ulp x - \<bar>x\<bar>)"
    by (simp only: right_diff_distrib)
  also have "of_int k * ulp x - \<bar>x\<bar> = (of_int k - \<bar>x\<bar> / ulp x) * ulp x"
    by (simp add: algebra_simps)
  finally have "\<bar>round_double x - x\<bar> = \<bar>sgn x\<bar> * (\<bar>of_int k - \<bar>x\<bar> / ulp x\<bar> * ulp x)"
    by (simp add: abs_mult)
  also have "\<dots> \<le> 1 * (1 / 2 * ulp x)"
  proof (rule mult_mono)
    show "\<bar>sgn x\<bar> \<le> 1" by (simp add: sgn_if)
    show "\<bar>of_int k - \<bar>x\<bar> / ulp x\<bar> * ulp x \<le> 1 / 2 * ulp x"
      unfolding k_def by (rule mult_right_mono[OF round_half_even_error]) simp
  qed simp_all
  finally show ?thesis by simp
qed

lemma round_double_eval:
  assumes "pow2 e \<le> \<bar>x\<bar>" and "\<bar>x\<bar> < pow2 (e + 1)" and "- 1022 \<le> e"
  shows "round_double x = sgn x * (of_int (round_half_even (\<bar>x\<bar> / pow2 (e - 52))) * pow2 (e - 52))"
proof -
  have "exponent x = e" using exponent_eq[OF assms(1,2)] assms(3) by simp
  then show ?thesis by (simp add: round_double_def ulp_def)
qed

lemma round_double_ge: "round_double d = d \<Longrightarrow> d \<le> x \<Longrightarrow> d \<le> round_double x"
  using round_double_mono[of d x] by simp

lemma round_double_le: "round_double d = d \<Longrightarrow> x \<le> d \<Longrightarrow> round_double x \<le> d"
  using round_double_mono[of x d] by simp

text \<open>Rounding between 1 and 2, where the doubles are the multiples of \<open>1 / 2 ^ 52\<close>.\<close>

lemma round_double_2 [simp]: "round_double 2 = 2"
  using round_double_of_int[of 2] by simp

lemma pow2_minus_1 [simp]: "pow2 (- 1) = 1 / 2"
  using pow2_neg[of 1] by simp

lemma round_double_half [simp]: "round_double (1 / 2) = 1 / 2"
  using round_double_pow2[of "- 1"] by simp

lemma exp_double_range:
  assumes "x \<le> 0"
  shows "0 \<le> exp_double x" and "exp_double x \<le> 1"
proof -
  show "0 \<le> exp_double x" unfolding exp_double_def by (rule round_double_nonneg) simp
  have "exp x \<le> 1" using assms by simp
  then show "exp_double x \<le> 1" unfolding exp_double_def by (intro round_double_le) simp_all
qed

lemma round_double_binade_1:
  assumes "1 \<le> y" and "y < 2"
  shows "round_double y = of_int (round_half_even (y * 2 ^ 52)) / 2 ^ 52"
proof -
  have "pow2 0 \<le> \<bar>y\<bar>" "\<bar>y\<bar> < pow2 (0 + 1)" using assms by simp_all
  then have "round_double y
      = sgn y * (of_int (round_half_even (\<bar>y\<bar> / pow2 (0 - 52))) * pow2 (0 - 52))"
    by (rule round_double_eval) simp
  then show ?thesis using assms by simp
qed

lemma round_double_add_one:
  assumes "0 \<le> e" and "e \<le> 1"
  obtains k where "2 ^ 52 \<le> k" and "k \<le> 2 ^ 53" and "round_double (1 + e) = of_int k / 2 ^ 52"
    and "\<bar>of_int k / 2 ^ 52 - (1 + e)\<bar> \<le> 1 / 2 ^ 53"
proof (cases "e = 1")
  case True
  have "round_double (1 + e) = of_int (2 ^ 53) / 2 ^ 52" using True by simp
  moreover have "\<bar>of_int (2 ^ 53) / 2 ^ 52 - (1 + e)\<bar> \<le> 1 / 2 ^ 53" using True by simp
  ultimately show ?thesis using that[of "2 ^ 53"] by simp
next
  case False
  define k where "k = round_half_even ((1 + e) * 2 ^ 52)"
  have r: "round_double (1 + e) = of_int k / 2 ^ 52"
    unfolding k_def using assms False by (intro round_double_binade_1) simp_all
  have "of_int (2 ^ 52) \<le> (1 + e) * 2 ^ 52" using assms by simp
  then have lo: "2 ^ 52 \<le> k" unfolding k_def by (rule round_half_even_ge)
  have "(1 + e) * 2 ^ 52 \<le> of_int (2 ^ 53)" using assms by simp
  then have hi: "k \<le> 2 ^ 53" unfolding k_def by (rule round_half_even_le)
  have "\<bar>of_int k - (1 + e) * 2 ^ 52\<bar> \<le> 1 / 2"
    unfolding k_def by (rule round_half_even_error)
  then have "\<bar>of_int k - (1 + e) * 2 ^ 52\<bar> / 2 ^ 52 \<le> (1 / 2) / 2 ^ 52"
    by (rule divide_right_mono) simp
  moreover have "\<bar>of_int k - (1 + e) * 2 ^ 52\<bar> / 2 ^ 52 = \<bar>of_int k / 2 ^ 52 - (1 + e)\<bar>"
  proof -
    have "of_int k / 2 ^ 52 - (1 + e) = (of_int k - (1 + e) * 2 ^ 52) / 2 ^ 52"
      by (simp add: field_simps)
    then show ?thesis by (simp only: abs_divide) simp
  qed
  ultimately have "\<bar>of_int k / 2 ^ 52 - (1 + e)\<bar> \<le> 1 / 2 ^ 53" by simp
  then show ?thesis using that[of k] lo hi r by simp
qed

lemma sigmoid_negative_branch:
  assumes "0 \<le> e" and "e \<le> 1"
  shows "double_sub 1 (double_add (double_div 1 1) e) = 1 - round_double (1 + e)"
proof -
  obtain k where k: "2 ^ 52 \<le> k" "k \<le> 2 ^ 53" "round_double (1 + e) = of_int k / 2 ^ 52"
    using round_double_add_one[OF assms] by blast
  have eq: "1 - of_int k / 2 ^ 52 = of_int (2 ^ 52 - k) * pow2 (- 52)"
    by (simp add: field_simps)
  have ex: "round_double (of_int (2 ^ 52 - k) * pow2 (- 52)) = of_int (2 ^ 52 - k) * pow2 (- 52)"
    using k(1,2) by (intro round_double_exact) simp_all
  have "round_double (1 - of_int k / 2 ^ 52) = 1 - of_int k / 2 ^ 52"
    unfolding eq by (rule ex)
  then show ?thesis by (simp add: double_sub_def double_add_def double_div_def k(3))
qed

lemma round_half_even_below_half:
  assumes "0 \<le> f" and "f \<le> 1 / 2" and "even n"
  shows "round_half_even (of_int n + f) = n"
proof -
  have "\<lfloor>of_int n + f\<rfloor> = n" using assms by (intro floor_unique) simp_all
  then show ?thesis using assms by (simp add: round_half_even_def)
qed

lemma round_double_one_plus_tiny:
  assumes "0 \<le> e" and "e \<le> 1 / 2 ^ 53"
  shows "round_double (1 + e) = 1"
proof -
  have "round_double (1 + e) = of_int (round_half_even ((1 + e) * 2 ^ 52)) / 2 ^ 52"
    using assms by (intro round_double_binade_1) simp_all
  moreover have "(1 + e) * 2 ^ 52 = of_int (2 ^ 52) + e * 2 ^ 52" by (simp add: algebra_simps)
  moreover have "round_half_even (of_int (2 ^ 52) + e * 2 ^ 52) = 2 ^ 52"
    using assms by (intro round_half_even_below_half) simp_all
  ultimately show ?thesis by simp
qed

section \<open>Activation functions\<close>

lemma exp_40_lower: "2 ^ 53 \<le> exp (40 :: real)"
proof -
  have "1 + (1 / 2) + (1 / 2)\<^sup>2 / 2 \<le> exp (1 / 2 :: real)"
    by (rule exp_lower_Taylor_quadratic) simp
  then have "13 / 8 \<le> exp (1 / 2 :: real)" by (simp add: power2_eq_square)
  then have "(13 / 8) ^ 80 \<le> exp (1 / 2 :: real) ^ 80" by (intro power_mono) simp_all
  also have "exp (1 / 2 :: real) ^ 80 = exp (of_nat 80 * (1 / 2))" by (rule exp_of_nat_mult[symmetric])
  finally have "(13 / 8) ^ 80 \<le> exp (40 :: real)" by simp
  moreover have "(2 :: real) ^ 53 \<le> (13 / 8) ^ 80" by (simp add: power_divide)
  ultimately show ?thesis by linarith
qed

lemma exp_40_upper: "exp (40 :: real) \<le> 2 ^ 1022"
proof -
  have "exp (1 :: real) ^ 40 \<le> 3 ^ 40" by (intro power_mono exp_le) simp
  moreover have "exp (1 :: real) ^ 40 = exp (of_nat 40 * 1)" by (rule exp_of_nat_mult[symmetric])
  moreover have "(3 :: real) ^ 40 \<le> 2 ^ 1022" by simp
  ultimately show ?thesis by simp
qed

lemma exp_double_minus_40: "0 < exp_double (- 40)" "exp_double (- 40) \<le> 1 / 2 ^ 53"
proof -
  have e: "exp (- 40 :: real) = 1 / exp 40" by (simp add: exp_minus inverse_eq_divide)
  have "1 / exp (40 :: real) \<le> 1 / 2 ^ 53" using exp_40_lower by (intro divide_left_mono) simp_all
  then have "exp (- 40 :: real) \<le> pow2 (- 53)" by (simp add: e)
  then have "round_double (exp (- 40)) \<le> pow2 (- 53)"
    by (intro round_double_le round_double_pow2) simp_all
  then show "exp_double (- 40) \<le> 1 / 2 ^ 53" by (simp add: exp_double_def)
  have "1 / 2 ^ 1022 \<le> 1 / exp (40 :: real)" using exp_40_upper by (intro divide_left_mono) simp_all
  then have "pow2 (- 1022) \<le> exp (- 40 :: real)" by (simp add: e)
  then have "pow2 (- 1022) \<le> round_double (exp (- 40))"
    by (intro round_double_ge round_double_pow2) simp_all
  then show "0 < exp_double (- 40)"
    using pow2_pos[of "- 1022"] unfolding exp_double_def by linarith
qed

lemma activation_sigmoid_negative:
  assumes "x < 0"
  shows "activation_sigmoid x = 1 - round_double (1 + exp_double x)"
  using assms exp_double_range[of x] by (simp add: activation_sigmoid_def sigmoid_negative_branch)

lemma activation_sigmoid_negative_error:
  assumes "x < 0"
  shows "\<bar>activation_sigmoid x - (- exp_double x)\<bar> \<le> 1 / 2 ^ 53"
    and "- 1 \<le> activation_sigmoid x" and "activation_sigmoid x \<le> 0"
proof -
  have e: "0 \<le> exp_double x" "exp_double x \<le> 1" using assms exp_double_range[of x] by simp_all
  obtain k where k: "2 ^ 52 \<le> k" "k \<le> 2 ^ 53"
      "round_double (1 + exp_double x) = of_int k / 2 ^ 52"
      "\<bar>of_int k / 2 ^ 52 - (1 + exp_double x)\<bar> \<le> 1 / 2 ^ 53"
    using round_double_add_one[OF e] by blast
  have a: "activation_sigmoid x = 1 - of_int k / 2 ^ 52"
    using activation_sigmoid_negative[OF assms] k(3) by simp
  have "activation_sigmoid x - (- exp_double x) = - (of_int k / 2 ^ 52 - (1 + exp_double x))"
    by (simp add: a)
  then have "\<bar>activation_sigmoid x - (- exp_double x)\<bar> = \<bar>of_int k / 2 ^ 52 - (1 + exp_double x)\<bar>"
    by (simp only: abs_minus_cancel)
  then show "\<bar>activation_sigmoid x - (- exp_double x)\<bar> \<le> 1 / 2 ^ 53" using k(4) by simp
  have "(2 ^ 52 :: real) \<le> of_int k" using k(1) by (metis of_int_le_iff of_int_numeral of_int_power)
  then show "activation_sigmoid x \<le> 0" by (simp add: a)
  have "of_int k \<le> (2 ^ 53 :: real)" using k(2) by (metis of_int_le_iff of_int_numeral of_int_power)
  then show "- 1 \<le> activation_sigmoid x" by (simp add: a)
qed

lemma activation_sigmoid_negative_zero:
  assumes "x < 0" and "exp_double x \<le> 1 / 2 ^ 53"
  shows "activation_sigmoid x = 0"
  using assms exp_double_range(1)[of x]
  by (simp add: activation_sigmoid_negative round_double_one_plus_tiny)

lemma activation_sigmoid_nonnegative:
  assumes "0 \<le> x"
  shows "1 / 2 \<le> activation_sigmoid x" and "activation_sigmoid x \<le> 1"
proof -
  define s where "s = double_add 1 (exp_double (- x))"
  have e: "0 \<le> exp_double (- x)" "exp_double (- x) \<le> 1"
    using assms exp_double_range[of "- x"] by simp_all
  have s1: "1 \<le> s" unfolding s_def double_add_def using e by (intro round_double_ge) simp_all
  have s2: "s \<le> 2" unfolding s_def double_add_def using e by (intro round_double_le) simp_all
  have a: "activation_sigmoid x = round_double (1 / s)"
    using assms by (simp add: activation_sigmoid_def s_def double_div_def)
  have "1 / 2 \<le> 1 / s" using s1 s2 by (simp add: field_simps)
  then show "1 / 2 \<le> activation_sigmoid x" unfolding a by (intro round_double_ge) simp_all
  have "1 / s \<le> 1" using s1 by simp
  then show "activation_sigmoid x \<le> 1" unfolding a by (intro round_double_le) simp_all
qed

text \<open>
  C9, as stated, fails: the value returned for \<open>x < 0\<close> is not \<^verbatim>\<open>-exp(x)\<close>. At \<open>x = - 40\<close>
  the exponential is below \<open>1 / 2 ^ 53\<close>, the sum \<^verbatim>\<open>1.0 / 1 + exp(x)\<close> rounds to 1 and the
  function returns 0, while \<^verbatim>\<open>exp(x)\<close> is not 0.
\<close>

theorem activation_sigmoid_not_minus_exp:
  "\<not> activation_sigmoid (- 40) = - exp_double (- 40)"
  using exp_double_minus_40 by (simp add: activation_sigmoid_negative_zero)

text \<open>
  C9, amended. For \<open>x < 0\<close>, \<^verbatim>\<open>activation_sigmoid\<close> returns \<^verbatim>\<open>1.0 - (1.0 / 1 + exp(x))\<close>
  computed in double arithmetic. The subtraction is exact there, so that the value is
  1 minus the rounded sum \<open>1 + exp(x)\<close>. It is \<^verbatim>\<open>-exp(x)\<close> up to the rounding of that sum,
  an error of \<open>1 / 2 ^ 53\<close> at most; it is 0 wherever \<^verbatim>\<open>exp(x)\<close> is \<open>1 / 2 ^ 53\<close> or less; it
  lies between \<open>- 1\<close> and 0, below the sigmoid \<open>1 / (1 + exp (- x))\<close>. For \<open>x \<ge> 0\<close> the
  function returns \<^verbatim>\<open>1.0 / (1 + exp(-x))\<close>, a value between \<open>1 / 2\<close> and 1.
\<close>

theorem activation_sigmoid_branches:
  "(x < 0 \<longrightarrow>
        activation_sigmoid x = double_sub 1.0 (double_add (double_div 1.0 1) (exp_double x))
      \<and> activation_sigmoid x = 1 - round_double (1 + exp_double x)
      \<and> \<bar>activation_sigmoid x - (- exp_double x)\<bar> \<le> 1 / 2 ^ 53
      \<and> (exp_double x \<le> 1 / 2 ^ 53 \<longrightarrow> activation_sigmoid x = 0)
      \<and> - 1 \<le> activation_sigmoid x \<and> activation_sigmoid x \<le> 0
      \<and> activation_sigmoid x < 1 / (1 + exp (- x)))
   \<and> (x \<ge> 0 \<longrightarrow>
        activation_sigmoid x = double_div 1.0 (double_add 1 (exp_double (- x)))
      \<and> 1 / 2 \<le> activation_sigmoid x \<and> activation_sigmoid x \<le> 1)"
proof (intro conjI impI)
  assume x: "x < 0"
  show "activation_sigmoid x = double_sub 1.0 (double_add (double_div 1.0 1) (exp_double x))"
    using x by (simp add: activation_sigmoid_def)
  show "activation_sigmoid x = 1 - round_double (1 + exp_double x)"
    using x by (rule activation_sigmoid_negative)
  show "\<bar>activation_sigmoid x - (- exp_double x)\<bar> \<le> 1 / 2 ^ 53"
    using x by (rule activation_sigmoid_negative_error)
  show "- 1 \<le> activation_sigmoid x" using x by (rule activation_sigmoid_negative_error)
  show le0: "activation_sigmoid x \<le> 0" using x by (rule activation_sigmoid_negative_error)
  have "0 < 1 / (1 + exp (- x))" by (simp add: add_pos_pos)
  then show "activation_sigmoid x < 1 / (1 + exp (- x))" using le0 by linarith
next
  assume "x < 0" and "exp_double x \<le> 1 / 2 ^ 53"
  then show "activation_sigmoid x = 0" by (rule activation_sigmoid_negative_zero)
next
  assume x: "0 \<le> x"
  show "activation_sigmoid x = double_div 1.0 (double_add 1 (exp_double (- x)))"
    using x by (simp add: activation_sigmoid_def)
  show "1 / 2 \<le> activation_sigmoid x" using x by (rule activation_sigmoid_nonnegative)
  show "activation_sigmoid x \<le> 1" using x by (rule activation_sigmoid_nonnegative)
qed

theorem activation_sigmoid_branches_witness:
  "(- 40 :: real) < 0 \<and> exp_double (- 40) \<le> 1 / 2 ^ 53 \<and> activation_sigmoid (- 40) = 0
     \<and> (0 :: real) \<ge> 0 \<and> activation_sigmoid 0 = 1 / 2"
  using activation_sigmoid_branches[of "- 40"] activation_sigmoid_branches[of 0]
    exp_double_minus_40(2)
  by (simp add: exp_double_def double_add_def double_div_def)

section \<open>Random numbers\<close>

text \<open>
  The four intermediate results of \<^verbatim>\<open>deepc_random_double\<close>: the quotient is between 0 and 1,
  the scaled difference between 0 and the rounded difference.
\<close>

lemma double_of_int_range:
  assumes "0 < RAND_MAX" and "r \<le> RAND_MAX"
  shows "0 \<le> double_of_int (int r)" and "double_of_int (int r) \<le> double_of_int (int RAND_MAX)"
    and "1 \<le> double_of_int (int RAND_MAX)"
proof -
  show "0 \<le> double_of_int (int r)" unfolding double_of_int_def by (rule round_double_nonneg) simp
  show "double_of_int (int r) \<le> double_of_int (int RAND_MAX)"
    unfolding double_of_int_def using assms by (intro round_double_mono) simp
  have "1 \<le> real RAND_MAX" using assms by simp
  then show "1 \<le> double_of_int (int RAND_MAX)"
    unfolding double_of_int_def by (intro round_double_ge) simp_all
qed

lemma quotient_range:
  assumes "0 < RAND_MAX" and "r \<le> RAND_MAX"
  shows "0 \<le> double_div (double_of_int (int r)) (double_of_int (int RAND_MAX))"
    and "double_div (double_of_int (int r)) (double_of_int (int RAND_MAX)) \<le> 1"
proof -
  note c = double_of_int_range[OF assms]
  show "0 \<le> double_div (double_of_int (int r)) (double_of_int (int RAND_MAX))"
    unfolding double_div_def using c by (intro round_double_nonneg) simp
  have "double_of_int (int r) / double_of_int (int RAND_MAX) \<le> 1" using c by simp
  then show "double_div (double_of_int (int r)) (double_of_int (int RAND_MAX)) \<le> 1"
    unfolding double_div_def by (intro round_double_le) simp_all
qed

lemma quotient_RAND_MAX:
  assumes "0 < RAND_MAX"
  shows "double_div (double_of_int (int RAND_MAX)) (double_of_int (int RAND_MAX)) = 1"
  using double_of_int_range(3)[OF assms order_refl] by (simp add: double_div_def)

lemma quotient_0: "double_div (double_of_int (int 0)) (double_of_int (int RAND_MAX)) = 0"
  by (simp add: double_div_def double_of_int_def)

lemma scaled_range:
  assumes "0 \<le> q" and "q \<le> 1" and "min' < max'"
  shows "0 \<le> double_mul q (double_sub max' min')"
    and "double_mul q (double_sub max' min') \<le> double_sub max' min'"
proof -
  have d: "0 \<le> double_sub max' min'"
    unfolding double_sub_def using assms(3) by (intro round_double_nonneg) simp
  show "0 \<le> double_mul q (double_sub max' min')"
    unfolding double_mul_def using assms(1) d by (intro round_double_nonneg) simp
  have "q * double_sub max' min' \<le> double_sub max' min'"
    using mult_right_mono[OF assms(2) d] by simp
  then show "double_mul q (double_sub max' min') \<le> double_sub max' min'"
    unfolding double_mul_def by (intro round_double_le) (simp_all add: double_sub_def round_double_idem)
qed

lemma deepc_random_double_no_overflow:
  assumes "0 < RAND_MAX" and "r \<le> RAND_MAX" and "min' < max'"
    and "\<bar>min'\<bar> \<le> 2 ^ 1022" and "\<bar>max'\<bar> \<le> 2 ^ 1022"
  shows "\<bar>double_div (double_of_int (int r)) (double_of_int (int RAND_MAX))\<bar> \<le> DBL_MAX"
    and "\<bar>double_sub max' min'\<bar> \<le> DBL_MAX"
    and "\<bar>double_mul (double_div (double_of_int (int r)) (double_of_int (int RAND_MAX)))
                     (double_sub max' min')\<bar> \<le> DBL_MAX"
    and "\<bar>deepc_random_double RAND_MAX r min' max'\<bar> \<le> DBL_MAX"
proof -
  define q where "q = double_div (double_of_int (int r)) (double_of_int (int RAND_MAX))"
  define d where "d = double_sub max' min'"
  define p where "p = double_mul q d"
  have q: "0 \<le> q" "q \<le> 1" unfolding q_def using quotient_range[OF assms(1,2)] by simp_all
  have p: "0 \<le> p" "p \<le> d" unfolding p_def d_def using scaled_range[OF q assms(3)] by simp_all
  have big: "round_double (2 ^ 1023) = 2 ^ 1023" "round_double (3 * 2 ^ 1022) = 3 * 2 ^ 1022"
      "round_double (- (2 ^ 1022)) = - (2 ^ 1022)"
    using round_double_pow2[of 1023] round_double_exact[of 3 1022] round_double_exact[of "- 1" 1022]
    by simp_all
  have "max' - min' \<le> 2 ^ 1023" using assms(4,5) by simp
  then have d: "d \<le> 2 ^ 1023" unfolding d_def double_sub_def by (intro round_double_le big)
  have M: "(3 * 2 ^ 1022 :: real) \<le> DBL_MAX" "(2 ^ 1023 :: real) \<le> DBL_MAX" "(1 :: real) \<le> DBL_MAX"
    by (simp_all add: DBL_MAX_def)
  show "\<bar>q\<bar> \<le> DBL_MAX" using q M by simp
  show "\<bar>d\<bar> \<le> DBL_MAX" using p d M by simp
  show "\<bar>p\<bar> \<le> DBL_MAX" using p d M by simp
  have r: "deepc_random_double RAND_MAX r min' max' = round_double (p + min')"
    by (simp add: deepc_random_double_def p_def q_def d_def double_add_def)
  have "p + min' \<le> 3 * 2 ^ 1022" using p d assms(4) by simp
  then have hi: "round_double (p + min') \<le> 3 * 2 ^ 1022" by (intro round_double_le big)
  have "- (2 ^ 1022) \<le> p + min'" using p assms(4) by simp
  then have lo: "- (2 ^ 1022) \<le> round_double (p + min')" by (intro round_double_ge big)
  show "\<bar>deepc_random_double RAND_MAX r min' max'\<bar> \<le> DBL_MAX"
    unfolding r using lo hi M by simp
qed

text \<open>
  C10, as stated, fails: when \<^verbatim>\<open>rand()\<close> returns \<^verbatim>\<open>RAND_MAX\<close> the quotient is 1, and for
  \<open>min = 0\<close> and \<open>max = 1\<close> the result is \<open>max\<close> itself.
\<close>

theorem deepc_random_double_reaches_max:
  "\<not> deepc_random_double 32767 32767 0 1 < 1"
proof -
  have "double_div (double_of_int 32767) (double_of_int 32767) = 1"
    using quotient_RAND_MAX[of 32767] by simp
  then show ?thesis
    by (simp add: deepc_random_double_def double_sub_def double_mul_def double_add_def)
qed

text \<open>
  C10, amended. Let \<open>min < max\<close> be doubles of magnitude \<open>2 ^ 1022\<close> at most (so that no
  operation overflows, \<open>deepc_random_double_no_overflow\<close>), and \<open>r\<close> the value of \<^verbatim>\<open>rand()\<close>,
  between 0 and \<^verbatim>\<open>RAND_MAX\<close>. The result of \<^verbatim>\<open>deepc_random_double\<close> lies between \<open>min\<close> and
  the double \<open>(max - min) + min\<close> computed with rounding, both included: the first is
  returned for \<open>r = 0\<close> and the second for \<open>r = RAND_MAX\<close>. The upper end differs from
  \<open>max\<close> by the two rounding errors at most; it can be \<open>max\<close>, above it or below it.
\<close>

theorem deepc_random_double_range:
  assumes "0 < RAND_MAX" and "r \<le> RAND_MAX" and "min' < max'"
    and "is_double min'" and "is_double max'"
    and "\<bar>min'\<bar> \<le> 2 ^ 1022" and "\<bar>max'\<bar> \<le> 2 ^ 1022"
  shows "min' \<le> deepc_random_double RAND_MAX r min' max'
       \<and> deepc_random_double RAND_MAX r min' max' \<le> double_add (double_sub max' min') min'
       \<and> deepc_random_double RAND_MAX 0 min' max' = min'
       \<and> deepc_random_double RAND_MAX RAND_MAX min' max' = double_add (double_sub max' min') min'
       \<and> \<bar>double_add (double_sub max' min') min' - max'\<bar>
            \<le> ulp (max' - min') / 2 + ulp (double_sub max' min' + min') / 2"
proof (intro conjI)
  define q where "q = double_div (double_of_int (int r)) (double_of_int (int RAND_MAX))"
  define d where "d = double_sub max' min'"
  define p where "p = double_mul q d"
  have q: "0 \<le> q" "q \<le> 1" unfolding q_def using quotient_range[OF assms(1,2)] by simp_all
  have p: "0 \<le> p" "p \<le> d" unfolding p_def d_def using scaled_range[OF q assms(3)] by simp_all
  have m: "round_double min' = min'" using assms(4) by (simp add: is_double_def)
  have r: "deepc_random_double RAND_MAX r min' max' = round_double (p + min')"
    by (simp add: deepc_random_double_def p_def q_def d_def double_add_def)
  have "min' \<le> round_double (p + min')" using p(1) by (intro round_double_ge m) simp
  then show "min' \<le> deepc_random_double RAND_MAX r min' max'" by (simp add: r)
  have "round_double (p + min') \<le> round_double (d + min')" using p(2) by (intro round_double_mono) simp
  then show "deepc_random_double RAND_MAX r min' max' \<le> double_add (double_sub max' min') min'"
    by (simp add: r double_add_def d_def)
  show "deepc_random_double RAND_MAX 0 min' max' = min'"
    using quotient_0[of RAND_MAX] by (simp add: deepc_random_double_def double_mul_def double_add_def m)
  show "deepc_random_double RAND_MAX RAND_MAX min' max' = double_add (double_sub max' min') min'"
    using quotient_RAND_MAX[OF assms(1)]
    by (simp add: deepc_random_double_def double_mul_def double_sub_def round_double_idem)
  have "\<bar>round_double (d + min') - (d + min')\<bar> \<le> ulp (d + min') / 2" by (rule round_double_error)
  moreover have "\<bar>d - (max' - min')\<bar> \<le> ulp (max' - min') / 2"
    unfolding d_def double_sub_def by (rule round_double_error)
  ultimately have "\<bar>round_double (d + min') - max'\<bar> \<le> ulp (max' - min') / 2 + ulp (d + min') / 2"
    by linarith
  then show "\<bar>double_add (double_sub max' min') min' - max'\<bar>
            \<le> ulp (max' - min') / 2 + ulp (double_sub max' min' + min') / 2"
    by (simp add: double_add_def d_def)
qed

theorem deepc_random_double_range_witness:
  "(0 :: nat) < 32767 \<and> (100 :: nat) \<le> 32767 \<and> (0 :: real) < 1 \<and> is_double 0 \<and> is_double 1
     \<and> 0 \<le> deepc_random_double 32767 100 0 1 \<and> deepc_random_double 32767 100 0 1 \<le> 1
     \<and> deepc_random_double 32767 0 0 1 = 0 \<and> deepc_random_double 32767 32767 0 1 = 1"
  using deepc_random_double_range[of 32767 100 0 1]
  by (simp add: is_double_def DBL_MAX_def double_add_def double_sub_def)

text \<open>
  The upper end can be above \<open>max\<close>. For \<open>min = - 2\<close> and \<open>max\<close> the double nearest to
  \<open>- 0.9\<close>, which is \<open>- 8106479329266893 / 2 ^ 53\<close>, the difference \<open>max - min\<close> lies half
  way between two doubles and is rounded up, and for \<open>r = RAND_MAX\<close> the result is the
  next double above \<open>max\<close>.
\<close>

lemma is_double_example_max: "is_double (- (8106479329266893 / 2 ^ 53))"
  using round_double_exact[of "- 8106479329266893" "- 53"] by (simp add: is_double_def DBL_MAX_def)

lemma round_half_even_tie: "round_half_even (9907919180215091 / 2) = 4953959590107546"
  by (simp add: round_half_even_def)

lemma double_sub_example: "double_sub (- (8106479329266893 / 2 ^ 53)) (- 2) = 4953959590107546 / 2 ^ 52"
proof -
  have "round_double (9907919180215091 / 2 ^ 53)
      = of_int (round_half_even (9907919180215091 / 2 ^ 53 * 2 ^ 52)) / 2 ^ 52"
    by (rule round_double_binade_1) simp_all
  moreover have "(9907919180215091 / 2 ^ 53 * 2 ^ 52 :: real) = 9907919180215091 / 2" by simp
  ultimately have "round_double (9907919180215091 / 2 ^ 53) = 4953959590107546 / 2 ^ 52"
    by (simp only: round_half_even_tie)
  moreover have "(- (8106479329266893 / 2 ^ 53) - (- 2) :: real) = 9907919180215091 / 2 ^ 53" by simp
  ultimately show ?thesis by (simp only: double_sub_def)
qed

lemma deepc_random_double_above_max:
  "deepc_random_double 32767 32767 (- 2) (- (8106479329266893 / 2 ^ 53)) = - (8106479329266892 / 2 ^ 53)"
  "- (8106479329266893 / 2 ^ 53) < deepc_random_double 32767 32767 (- 2) (- (8106479329266893 / 2 ^ 53))"
proof -
  have q: "double_div (double_of_int (int 32767)) (double_of_int (int 32767)) = 1"
    by (rule quotient_RAND_MAX) simp
  have d: "round_double (4953959590107546 / 2 ^ 52) = 4953959590107546 / 2 ^ 52"
    using round_double_exact[of 4953959590107546 "- 52"] by simp
  have "(4953959590107546 / 2 ^ 52 + - 2 :: real) = - (8106479329266892 / 2 ^ 53)" by simp
  moreover have "round_double (- (8106479329266892 / 2 ^ 53)) = - (8106479329266892 / 2 ^ 53)"
    using round_double_exact[of "- 8106479329266892" "- 53"] by simp
  ultimately have "double_add (4953959590107546 / 2 ^ 52) (- 2) = - (8106479329266892 / 2 ^ 53)"
    by (simp only: double_add_def)
  then show r: "deepc_random_double 32767 32767 (- 2) (- (8106479329266893 / 2 ^ 53))
      = - (8106479329266892 / 2 ^ 53)"
    by (simp only: deepc_random_double_def q double_sub_example double_mul_def mult_1 d)
  show "- (8106479329266893 / 2 ^ 53) < deepc_random_double 32767 32767 (- 2) (- (8106479329266893 / 2 ^ 53))"
    unfolding r by simp
qed

text \<open>
  The upper end can be below \<open>max\<close>. For \<open>min = - 1\<close> and \<open>max = 1 / 2 ^ 60\<close> the difference
  \<open>max - min\<close> is rounded to 1, and no result is above 0.
\<close>

lemma deepc_random_double_below_max:
  "deepc_random_double 32767 32767 (- 1) (1 / 2 ^ 60) = 0"
  "deepc_random_double 32767 32767 (- 1) (1 / 2 ^ 60) < 1 / 2 ^ 60"
proof -
  have q: "double_div (double_of_int (int 32767)) (double_of_int (int 32767)) = 1"
    by (rule quotient_RAND_MAX) simp
  have "round_double (1 + 1 / 2 ^ 60) = 1" by (rule round_double_one_plus_tiny) simp_all
  then have d: "double_sub (1 / 2 ^ 60) (- 1) = 1" by (simp add: double_sub_def add.commute)
  show r: "deepc_random_double 32767 32767 (- 1) (1 / 2 ^ 60) = 0"
    by (simp only: deepc_random_double_def q d double_mul_def mult_1 round_double_1 double_add_def)
      simp
  show "deepc_random_double 32767 32767 (- 1) (1 / 2 ^ 60) < 1 / 2 ^ 60"
    unfolding r by simp
qed

section \<open>Observations and the replay memory\<close>

lemma ddpg_data_copy_length [simp]:
  "length (ddpg_data_copy dst off src so n) = length dst"
  by (simp add: ddpg_data_copy_def fold_update_length)

lemma ddpg_data_copy_nth:
  "j < length dst \<Longrightarrow>
   ddpg_data_copy dst off src so n ! j =
     (if off \<le> j \<and> j < off + n then src ! (so + (j - off)) else dst ! j)"
proof (induction n)
  case 0
  then show ?case by (simp add: ddpg_data_copy_def)
next
  case (Suc n)
  have "ddpg_data_copy dst off src so (Suc n)
          = (ddpg_data_copy dst off src so n)[off + n := src ! (so + n)]"
    by (simp add: ddpg_data_copy_def)
  moreover have "length (ddpg_data_copy dst off src so n) = length dst" by simp
  ultimately show ?case
    using Suc by (cases "j = off + n") (simp_all add: nth_list_update)
qed

lemma ddpg_data_copy_whole:
  "length dst = n \<Longrightarrow> n \<le> length src \<Longrightarrow> ddpg_data_copy dst 0 src 0 n = take n src"
  by (rule nth_equalityI) (simp_all add: ddpg_data_copy_nth)

text \<open>
  C5. When \<^verbatim>\<open>lastStateValid\<close> is not set, \<^verbatim>\<open>ddpg_observe\<close> copies the state into
  \<^verbatim>\<open>lastState\<close>, sets \<^verbatim>\<open>lastStateValid\<close> and changes nothing else: the replay memory,
  \<^verbatim>\<open>memoryUsed\<close> and \<^verbatim>\<open>memoryIdx\<close> keep their values.
\<close>

theorem ddpg_observe_priming:
  assumes "\<not> lastStateValid ddpg"
    and "length (lastState ddpg) = stateSize ddpg" "stateSize ddpg \<le> length state"
  shows "ddpg_observe ddpg action' reward state terminal
           = ddpg\<lparr>lastState := take (stateSize ddpg) state, lastStateValid := True\<rparr>
       \<and> memory (ddpg_observe ddpg action' reward state terminal) = memory ddpg
       \<and> memoryUsed (ddpg_observe ddpg action' reward state terminal) = memoryUsed ddpg
       \<and> memoryIdx (ddpg_observe ddpg action' reward state terminal) = memoryIdx ddpg"
  using assms by (simp add: ddpg_observe_def ddpg_data_copy_whole)

theorem ddpg_observe_priming_witness:
  "lastState (ddpg_observe example_ddpg [0] 0 [1 / 2, 1 / 10] 0) = [1 / 2, 1 / 10]
   \<and> lastStateValid (ddpg_observe example_ddpg [0] 0 [1 / 2, 1 / 10] 0)
   \<and> memory (ddpg_observe example_ddpg [0] 0 [1 / 2, 1 / 10] 0) = memory example_ddpg
   \<and> memoryUsed (ddpg_observe example_ddpg [0] 0 [1 / 2, 1 / 10] 0) = 0
   \<and> memoryIdx (ddpg_observe example_ddpg [0] 0 [1 / 2, 1 / 10] 0) = 0"
proof -
  have h: "\<not> lastStateValid example_ddpg" "length (lastState example_ddpg) = stateSize example_ddpg"
    "stateSize example_ddpg \<le> length [1 / 2, 1 / 10 :: double]"
    by (simp_all add: example_ddpg_def)
  have v: "stateSize example_ddpg = 2" "memoryUsed example_ddpg = 0" "memoryIdx example_ddpg = 0"
    by (simp_all add: example_ddpg_def)
  show ?thesis
    using ddpg_observe_priming[OF h, of "[0]" 0 0] v by simp
qed

text \<open>Training reads the replay memory and leaves it, and the last state, as they are.\<close>

lemma ddpg_select_batch_frame [simp]:
  "memory (ddpg_select_batch ddpg rand) = memory ddpg"
  "memoryUsed (ddpg_select_batch ddpg rand) = memoryUsed ddpg"
  "memoryIdx (ddpg_select_batch ddpg rand) = memoryIdx ddpg"
  "memorySize (ddpg_select_batch ddpg rand) = memorySize ddpg"
  "stateSize (ddpg_select_batch ddpg rand) = stateSize ddpg"
  "actionSize (ddpg_select_batch ddpg rand) = actionSize ddpg"
  "lastState (ddpg_select_batch ddpg rand) = lastState ddpg"
  "lastStateValid (ddpg_select_batch ddpg rand) = lastStateValid ddpg"
  "ddpg_batchSize (ddpg_select_batch ddpg rand) = ddpg_batchSize ddpg"
  "criticErrors (ddpg_select_batch ddpg rand) = criticErrors ddpg"
  by (simp_all add: ddpg_select_batch_def)

lemma ddpg_train_actor_frame [simp]:
  "memory (ddpg_train_actor ddpg) = memory ddpg"
  "memoryUsed (ddpg_train_actor ddpg) = memoryUsed ddpg"
  "memoryIdx (ddpg_train_actor ddpg) = memoryIdx ddpg"
  "memorySize (ddpg_train_actor ddpg) = memorySize ddpg"
  "stateSize (ddpg_train_actor ddpg) = stateSize ddpg"
  "actionSize (ddpg_train_actor ddpg) = actionSize ddpg"
  "lastState (ddpg_train_actor ddpg) = lastState ddpg"
  "lastStateValid (ddpg_train_actor ddpg) = lastStateValid ddpg"
  "ddpg_batchSize (ddpg_train_actor ddpg) = ddpg_batchSize ddpg"
  "batchIndices (ddpg_train_actor ddpg) = batchIndices ddpg"
  by (simp_all add: ddpg_train_actor_def Let_def split_beta)

lemma ddpg_critic_forward_frame [simp]:
  "memory (ddpg_critic_forward ddpg) = memory ddpg"
  "memoryUsed (ddpg_critic_forward ddpg) = memoryUsed ddpg"
  "memoryIdx (ddpg_critic_forward ddpg) = memoryIdx ddpg"
  "memorySize (ddpg_critic_forward ddpg) = memorySize ddpg"
  "stateSize (ddpg_critic_forward ddpg) = stateSize ddpg"
  "actionSize (ddpg_critic_forward ddpg) = actionSize ddpg"
  "lastState (ddpg_critic_forward ddpg) = lastState ddpg"
  "lastStateValid (ddpg_critic_forward ddpg) = lastStateValid ddpg"
  "ddpg_batchSize (ddpg_critic_forward ddpg) = ddpg_batchSize ddpg"
  "batchIndices (ddpg_critic_forward ddpg) = batchIndices ddpg"
  "criticErrors (ddpg_critic_forward ddpg) = criticErrors ddpg"
  by (simp_all add: ddpg_critic_forward_def Let_def)

lemma ddpg_bellman_frame [simp]:
  "memory (ddpg_bellman ddpg gamma co cto) = memory ddpg"
  "memoryUsed (ddpg_bellman ddpg gamma co cto) = memoryUsed ddpg"
  "memoryIdx (ddpg_bellman ddpg gamma co cto) = memoryIdx ddpg"
  "memorySize (ddpg_bellman ddpg gamma co cto) = memorySize ddpg"
  "stateSize (ddpg_bellman ddpg gamma co cto) = stateSize ddpg"
  "actionSize (ddpg_bellman ddpg gamma co cto) = actionSize ddpg"
  "lastState (ddpg_bellman ddpg gamma co cto) = lastState ddpg"
  "lastStateValid (ddpg_bellman ddpg gamma co cto) = lastStateValid ddpg"
  "ddpg_batchSize (ddpg_bellman ddpg gamma co cto) = ddpg_batchSize ddpg"
  "batchIndices (ddpg_bellman ddpg gamma co cto) = batchIndices ddpg"
  "critic (ddpg_bellman ddpg gamma co cto) = critic ddpg"
  "criticTarget (ddpg_bellman ddpg gamma co cto) = criticTarget ddpg"
  by (simp_all add: ddpg_bellman_def)

lemma ddpg_critic_update_frame [simp]:
  "memory (ddpg_critic_update ddpg) = memory ddpg"
  "memoryUsed (ddpg_critic_update ddpg) = memoryUsed ddpg"
  "memoryIdx (ddpg_critic_update ddpg) = memoryIdx ddpg"
  "memorySize (ddpg_critic_update ddpg) = memorySize ddpg"
  "stateSize (ddpg_critic_update ddpg) = stateSize ddpg"
  "actionSize (ddpg_critic_update ddpg) = actionSize ddpg"
  "lastState (ddpg_critic_update ddpg) = lastState ddpg"
  "lastStateValid (ddpg_critic_update ddpg) = lastStateValid ddpg"
  "ddpg_batchSize (ddpg_critic_update ddpg) = ddpg_batchSize ddpg"
  "batchIndices (ddpg_critic_update ddpg) = batchIndices ddpg"
  "criticErrors (ddpg_critic_update ddpg) = criticErrors ddpg"
  by (simp_all add: ddpg_critic_update_def Let_def split_beta)

lemma ddpg_train_frame [simp]:
  "memory (ddpg_train ddpg gamma rand) = memory ddpg"
  "memoryUsed (ddpg_train ddpg gamma rand) = memoryUsed ddpg"
  "memoryIdx (ddpg_train ddpg gamma rand) = memoryIdx ddpg"
  "memorySize (ddpg_train ddpg gamma rand) = memorySize ddpg"
  "stateSize (ddpg_train ddpg gamma rand) = stateSize ddpg"
  "actionSize (ddpg_train ddpg gamma rand) = actionSize ddpg"
  "lastState (ddpg_train ddpg gamma rand) = lastState ddpg"
  "lastStateValid (ddpg_train ddpg gamma rand) = lastStateValid ddpg"
  by (simp_all add: ddpg_train_def Let_def)

lemma tuple_nth:
  assumes "length p = S" "length a = A" "length n = S"
  shows "c < S \<Longrightarrow> (p @ a @ [r] @ n @ [f]) ! c = p ! c"
    and "S \<le> c \<Longrightarrow> c < S + A \<Longrightarrow> (p @ a @ [r] @ n @ [f]) ! c = a ! (c - S)"
    and "(p @ a @ [r] @ n @ [f]) ! (S + A) = r"
    and "S + A < c \<Longrightarrow> c < 2 * S + A + 1 \<Longrightarrow> (p @ a @ [r] @ n @ [f]) ! c = n ! (c - (S + A + 1))"
    and "(p @ a @ [r] @ n @ [f]) ! (2 * S + A + 1) = f"
proof -
  show "c < S \<Longrightarrow> (p @ a @ [r] @ n @ [f]) ! c = p ! c"
    using assms by (simp add: nth_append)
  show "S \<le> c \<Longrightarrow> c < S + A \<Longrightarrow> (p @ a @ [r] @ n @ [f]) ! c = a ! (c - S)"
    using assms by (simp add: nth_append less_diff_conv2)
  have "(p @ a @ [r] @ n @ [f]) ! (S + A) = ((p @ a) @ [r] @ n @ [f]) ! (length (p @ a) + 0)"
    using assms by simp
  also have "\<dots> = r" by (subst nth_append_length_plus) simp
  finally show "(p @ a @ [r] @ n @ [f]) ! (S + A) = r" .
  show "(p @ a @ [r] @ n @ [f]) ! c = n ! (c - (S + A + 1))" if "S + A < c" "c < 2 * S + A + 1"
  proof -
    define k where "k = c - (S + A + 1)"
    have k: "c = S + A + 1 + k" "k < S" using that by (simp_all add: k_def)
    have "(p @ a @ [r] @ n @ [f]) ! c = ((p @ a @ [r]) @ n @ [f]) ! (length (p @ a @ [r]) + k)"
      using assms k by simp
    also have "\<dots> = (n @ [f]) ! k" by (rule nth_append_length_plus)
    also have "\<dots> = n ! k" using k assms by (simp add: nth_append)
    finally show ?thesis using k by simp
  qed
  have e: "2 * S + A + 1 = length (p @ a @ [r] @ n) + 0" using assms by simp
  have "(p @ a @ [r] @ n @ [f]) ! (2 * S + A + 1) = ((p @ a @ [r] @ n) @ [f]) ! (length (p @ a @ [r] @ n) + 0)"
    unfolding e by simp
  also have "\<dots> = f" by (subst nth_append_length_plus) simp
  finally show "(p @ a @ [r] @ n @ [f]) ! (2 * S + A + 1) = f" .
qed


lemma tuple_write_nth:
  assumes "b + (2 * S + A + 2) \<le> length d" "c < 2 * S + A + 2"
    and "S \<le> length p" "A \<le> length a" "S \<le> length n"
  shows "(ddpg_data_copy ((ddpg_data_copy (ddpg_data_copy d b p 0 S) (b + S) a 0 A)[b + (S + A) := r])
            (b + (S + A + 1)) n 0 S)[b + (S + A + 1 + S) := f] ! (b + c)
         = (take S p @ take A a @ [r] @ take S n @ [f]) ! c"
proof -
  let ?t = "take S p @ take A a @ [r] @ take S n @ [f]"
  have len: "length (take S p) = S" "length (take A a) = A" "length (take S n) = S"
    using assms by simp_all
  note tn = tuple_nth[OF len]
  consider "c < S" | "S \<le> c" "c < S + A" | "c = S + A" | "S + A < c" "c < 2 * S + A + 1"
    | "c = 2 * S + A + 1"
    using assms(2) by linarith
  then show ?thesis
  proof cases
    case 1
    then have "?t ! c = p ! c" using tn(1)[of c r f] by simp
    with 1 assms show ?thesis
      by (simp add: nth_list_update ddpg_data_copy_nth)
  next
    case 2
    then have "?t ! c = a ! (c - S)" using tn(2)[of c r f] by (simp add: less_diff_conv2)
    with 2 assms show ?thesis
      by (simp add: nth_list_update ddpg_data_copy_nth)
  next
    case 3
    then have "?t ! c = r" using tn(3)[of r f] by simp
    with 3 assms show ?thesis
      by (simp add: nth_list_update ddpg_data_copy_nth)
  next
    case 4
    define k where "k = c - (S + A + 1)"
    have k: "c = S + A + 1 + k" "k < S" using 4 by (simp_all add: k_def)
    have "?t ! c = n ! k" using tn(4)[of c r f] 4 k by simp
    with k assms show ?thesis
      by (simp add: nth_list_update ddpg_data_copy_nth)
  next
    case 5
    then have "?t ! c = f" using tn(5)[of r f] by simp
    moreover have "b + c = b + (S + A + 1 + S)" using 5 by simp
    ultimately show ?thesis using assms(1)
      by (simp del: add_Suc_right add_Suc)
  qed
qed

lemma replay_state_fresh: "ddpg_fresh S A M ddpg \<Longrightarrow> replay_state S A M ddpg []"
  by (simp add: ddpg_fresh_def replay_state_def)

lemma observe_row:
  assumes "stateSize ddpg = S" "actionSize ddpg = A"
    and "columns (memory ddpg) = A + 2 * S + 2" "length (data (memory ddpg)) = M * (A + 2 * S + 2)"
    and "length (lastState ddpg) = S" "lastStateValid ddpg" "memoryIdx ddpg < M"
    and "A \<le> length action'" "S \<le> length state"
  shows "matrix_row (memory (ddpg_observe ddpg action' reward state terminal)) (memoryIdx ddpg)
         = take S (lastState ddpg) @ take A action' @ [reward] @ take S state
              @ [if terminal > 0 then 1 else 0]"
proof -
  let ?C = "A + 2 * S + 2"
  let ?b = "memoryIdx ddpg * ?C"
  let ?d' = "data (memory (ddpg_observe ddpg action' reward state terminal))"
  let ?f = "if terminal > 0 then 1 else 0 :: real"
  have d': "?d' = (ddpg_data_copy ((ddpg_data_copy (ddpg_data_copy (data (memory ddpg)) ?b (lastState ddpg) 0 S)
                     (?b + S) action' 0 A)[?b + (S + A) := reward])
                     (?b + (S + A + 1)) state 0 S)[?b + (S + A + 1 + S) := ?f]"
    using assms(1,2,3,6) by (simp add: ddpg_observe_def Let_def MATRIX_offset_def)
  have cols: "columns (memory (ddpg_observe ddpg action' reward state terminal)) = ?C"
    using assms(3,6) by (simp add: ddpg_observe_def Let_def)
  have "Suc (memoryIdx ddpg) * ?C \<le> M * ?C"
    using assms(7) by (intro mult_le_mono1) simp
  then have bound: "?b + (2 * S + A + 2) \<le> length (data (memory ddpg))"
    using assms(4) by (simp add: algebra_simps)
  have len: "length ?d' = length (data (memory ddpg))"
    unfolding d' by simp
  show ?thesis
  proof (rule nth_equalityI)
    show "length (matrix_row (memory (ddpg_observe ddpg action' reward state terminal)) (memoryIdx ddpg))
            = length (take S (lastState ddpg) @ take A action' @ [reward] @ take S state @ [?f])"
      using bound len assms(5,8,9) by (simp add: matrix_row_def cols)
  next
    fix c
    assume "c < length (matrix_row (memory (ddpg_observe ddpg action' reward state terminal)) (memoryIdx ddpg))"
    then have c: "c < 2 * S + A + 2"
      by (simp add: matrix_row_def cols)
    have "matrix_row (memory (ddpg_observe ddpg action' reward state terminal)) (memoryIdx ddpg) ! c
            = ?d' ! (?b + c)"
      using c bound len by (simp add: matrix_row_def cols)
    also have "\<dots> = (take S (lastState ddpg) @ take A action' @ [reward] @ take S state @ [?f]) ! c"
      unfolding d' using bound c assms(5,8,9) by (intro tuple_write_nth) simp_all
    finally show "matrix_row (memory (ddpg_observe ddpg action' reward state terminal)) (memoryIdx ddpg) ! c
            = (take S (lastState ddpg) @ take A action' @ [reward] @ take S state @ [?f]) ! c" .
  qed
qed


lemma ring_pred: "0 < M \<Longrightarrow> i < M \<Longrightarrow> ((i + 1) mod M + M - 1) mod M = (i::nat)"
proof -
  assume M: "0 < M" and i: "i < M"
  show ?thesis
  proof (cases "i + 1 = M")
    case True
    then show ?thesis using M i by simp
  next
    case False
    then have "i + 1 < M" using i by simp
    then have "(i + 1) mod M + M - 1 = M + i" by simp
    then show ?thesis using i by simp
  qed
qed

lemma observe_valid_fields:
  assumes "lastStateValid ddpg"
  shows "stateSize (ddpg_observe ddpg a r s tm) = stateSize ddpg"
    and "actionSize (ddpg_observe ddpg a r s tm) = actionSize ddpg"
    and "rows (memory (ddpg_observe ddpg a r s tm)) = rows (memory ddpg)"
    and "columns (memory (ddpg_observe ddpg a r s tm)) = columns (memory ddpg)"
    and "length (data (memory (ddpg_observe ddpg a r s tm))) = length (data (memory ddpg))"
    and "memorySize (ddpg_observe ddpg a r s tm) = memorySize ddpg"
    and "length (lastState (ddpg_observe ddpg a r s tm)) = length (lastState ddpg)"
    and "memoryIdx (ddpg_observe ddpg a r s tm) = (memoryIdx ddpg + 1) mod memorySize ddpg"
    and "memoryUsed (ddpg_observe ddpg a r s tm)
           = (if memoryUsed ddpg < memorySize ddpg then memoryUsed ddpg + 1 else memoryUsed ddpg)"
  using assms by (simp_all add: ddpg_observe_def Let_def)

lemma replay_state_observe:
  assumes inv: "replay_state S A M ddpg obs" and M: "0 < M"
    and ok: "A \<le> length a" "S \<le> length s" and valid: "lastStateValid ddpg"
  shows "replay_state S A M (ddpg_observe ddpg a r s tm)
           (obs @ [take S (lastState ddpg) @ take A a @ [r] @ take S s @ [if tm > 0 then 1 else 0]])"
proof -
  let ?d' = "ddpg_observe ddpg a r s tm"
  from inv have sh: "stateSize ddpg = S" "actionSize ddpg = A" "rows (memory ddpg) = M"
    "columns (memory ddpg) = A + 2 * S + 2" "length (data (memory ddpg)) = M * (A + 2 * S + 2)"
    "memorySize ddpg = M" "length (lastState ddpg) = S"
    and used: "memoryUsed ddpg = min (length obs) M" and idx: "memoryIdx ddpg = length obs mod M"
    by (simp_all add: replay_state_def)
  have idxM: "memoryIdx ddpg < M" using idx M by simp
  note f = observe_valid_fields[OF valid, of a r s tm]
  have idx': "memoryIdx ?d' = length (obs @ [x]) mod M" for x :: "double list"
    using f(8) sh(6) idx by (simp add: mod_Suc_eq)
  have used': "memoryUsed ?d' = min (length (obs @ [x])) M" for x :: "double list"
    using f(9) sh(6) used by (auto simp: min_def)
  have "(memoryIdx ?d' + M - 1) mod M = memoryIdx ddpg"
    using f(8) sh(6) ring_pred[OF M idxM] by simp
  then have row: "matrix_row (memory ?d') ((memoryIdx ?d' + M - 1) mod M)
                = take S (lastState ddpg) @ take A a @ [r] @ take S s @ [if tm > 0 then 1 else 0]"
    using observe_row[OF sh(1,2,4,5,7) valid idxM ok] by simp
  show ?thesis
    unfolding replay_state_def
    using f(1-7) sh idx' used' row by simp
qed

lemma replay_state_prime:
  assumes inv: "replay_state S A M ddpg obs" and ok: "S \<le> length s" and valid: "\<not> lastStateValid ddpg"
  shows "replay_state S A M (ddpg_observe ddpg a r s tm) obs"
  using assms by (auto simp: replay_state_def ddpg_observe_def)

lemma replay_state_call:
  assumes "replay_state S A M ddpg obs" "0 < M" "call_ok S A c"
  shows "replay_state S A M (ddpg_call c ddpg) (obs @ observations [c] ddpg)"
proof (cases c)
  case (Observe a r s tm)
  show ?thesis
  proof (cases "lastStateValid ddpg")
    case True
    have sz: "stateSize ddpg = S" "actionSize ddpg = A"
      using assms(1) by (simp_all add: replay_state_def)
    show ?thesis
      using replay_state_observe[OF assms(1,2) _ _ True, of a s r tm] assms(3) Observe True sz
      by simp
  next
    case False
    then show ?thesis
      using replay_state_prime[OF assms(1) _ False, of s a r tm] assms(3) Observe by simp
  qed
next
  case NewEpisode
  then show ?thesis using assms(1) by (auto simp: replay_state_def ddpg_new_episode_def)
next
  case (Train gamma rand)
  then show ?thesis using assms(1) by (auto simp: replay_state_def)
qed

lemma observations_Cons: "observations (c # cs) ddpg = observations [c] ddpg @ observations cs (ddpg_call c ddpg)"
  by (cases c) simp_all

lemma replay_state_calls:
  assumes "replay_state S A M ddpg obs" "0 < M" "\<forall>c\<in>set cs. call_ok S A c"
  shows "replay_state S A M (ddpg_calls cs ddpg) (obs @ observations cs ddpg)"
  using assms
proof (induction cs arbitrary: ddpg obs)
  case Nil
  then show ?case by (simp add: ddpg_calls_def)
next
  case (Cons c cs)
  have "replay_state S A M (ddpg_call c ddpg) (obs @ observations [c] ddpg)"
    using Cons.prems by (intro replay_state_call) simp_all
  then have "replay_state S A M (ddpg_calls cs (ddpg_call c ddpg))
               ((obs @ observations [c] ddpg) @ observations cs (ddpg_call c ddpg))"
    using Cons.prems by (intro Cons.IH) simp_all
  then show ?case
    by (simp add: ddpg_calls_def observations_Cons[of c cs])
qed

text \<open>
  C2. Take a fresh agent with capacity \<open>M > 0\<close> and any sequence of calls of
  \<^verbatim>\<open>ddpg_observe\<close>, \<^verbatim>\<open>ddpg_new_episode\<close> and \<^verbatim>\<open>ddpg_train\<close>, and let \<open>K\<close> be the number of
  observations made while \<^verbatim>\<open>lastStateValid\<close> was set. Afterwards \<^verbatim>\<open>memoryUsed\<close> is
  \<open>min K M\<close>, \<^verbatim>\<open>memoryIdx\<close> is \<open>K mod M\<close>, and, when \<open>K > 0\<close>, the row at
  \<open>(memoryIdx - 1) mod M\<close> is the tuple \<open>(prevState, action, reward, nextState, terminal
  flag)\<close> of the last of these observations. The index \<open>(memoryIdx - 1) mod M\<close> is written
  \<open>(memoryIdx + M - 1) mod M\<close> on the natural numbers.
\<close>

theorem replay_memory_after_observations:
  assumes "ddpg_fresh S A M ddpg" "0 < M" "\<forall>c\<in>set cs. call_ok S A c"
  shows "memoryUsed (ddpg_calls cs ddpg) = min (length (observations cs ddpg)) M
       \<and> memoryIdx (ddpg_calls cs ddpg) = length (observations cs ddpg) mod M
       \<and> (0 < length (observations cs ddpg) \<longrightarrow>
            matrix_row (memory (ddpg_calls cs ddpg)) ((memoryIdx (ddpg_calls cs ddpg) + M - 1) mod M)
              = last (observations cs ddpg))"
  using replay_state_calls[OF replay_state_fresh[OF assms(1)] assms(2,3)]
  by (auto simp: replay_state_def)

text \<open>
  The witness is the scenario of the first two observations of an episode: the first
  primes the last state, the second writes row 0.
\<close>

lemma example_ddpg_fresh: "ddpg_fresh 2 1 4 example_ddpg"
  by (simp add: ddpg_fresh_def example_ddpg_def zeros_def)

theorem replay_memory_after_observations_witness:
  "memoryUsed (ddpg_calls [NewEpisode, Observe [0] 0 [1 / 2, 1 / 10] 0,
                           Observe [3 / 10] (- 1 / 5) [3 / 5, 1 / 5] 0] example_ddpg) = 1
   \<and> memoryIdx (ddpg_calls [NewEpisode, Observe [0] 0 [1 / 2, 1 / 10] 0,
                           Observe [3 / 10] (- 1 / 5) [3 / 5, 1 / 5] 0] example_ddpg) = 1
   \<and> matrix_row (memory (ddpg_calls [NewEpisode, Observe [0] 0 [1 / 2, 1 / 10] 0,
                           Observe [3 / 10] (- 1 / 5) [3 / 5, 1 / 5] 0] example_ddpg)) 0
       = [1 / 2, 1 / 10, 3 / 10, - 1 / 5, 3 / 5, 1 / 5, 0]"
proof -
  let ?cs = "[NewEpisode, Observe [0] 0 [1 / 2, 1 / 10] 0,
              Observe [3 / 10] (- 1 / 5) [3 / 5, 1 / 5] 0]"
  have obs: "observations ?cs example_ddpg = [[1 / 2, 1 / 10, 3 / 10, - 1 / 5, 3 / 5, 1 / 5, 0]]"
    by (simp add: example_ddpg_def ddpg_new_episode_def ddpg_observe_def ddpg_data_copy_def
        numeral_2_eq_2)
  have ok: "\<forall>c\<in>set ?cs. call_ok 2 1 c" by simp
  note inst = replay_memory_after_observations[OF example_ddpg_fresh _ ok, unfolded obs]
  have "(0::nat) < 4" by simp
  from inst[OF this] show ?thesis by auto
qed

section \<open>Back-propagation\<close>

lemma matrix_copy_shape [simp]:
  "rows (matrix_copy dst src) = rows dst" "columns (matrix_copy dst src) = columns dst"
  "length (data (matrix_copy dst src)) = length (data dst)"
  by (simp_all add: matrix_copy_def fold_update_length)

lemma matrix_apply_shape [simp]:
  "rows (matrix_apply m f) = rows m" "columns (matrix_apply m f) = columns m"
  "length (data (matrix_apply m f)) = length (data m)"
  by (simp_all add: matrix_apply_def fold_update_length)

lemma matrix_odot_shape [simp]:
  "rows (matrix_odot dst src) = rows dst" "columns (matrix_odot dst src) = columns dst"
  "length (data (matrix_odot dst src)) = length (data dst)"
  by (simp_all add: matrix_odot_def fold_update_length)

lemma matrix_fill_shape [simp]:
  "rows (matrix_fill m v) = rows m" "columns (matrix_fill m v) = columns m"
  "length (data (matrix_fill m v)) = length (data m)"
  by (simp_all add: matrix_fill_def fold_update_length)

lemma matrix_copy_nth:
  "k < rows dst * columns dst \<Longrightarrow> k < length (data dst) \<Longrightarrow> data (matrix_copy dst src) ! k = data src ! k"
  using fold_pointwise_nth[of k "data dst" "\<lambda>i x. data src ! i" "rows dst * columns dst"]
  by (simp add: matrix_copy_def)

lemma matrix_apply_nth:
  "k < rows m * columns m \<Longrightarrow> k < length (data m) \<Longrightarrow> data (matrix_apply m f) ! k = f (data m ! k)"
  using fold_pointwise_nth[of k "data m" "\<lambda>i x. f x" "rows m * columns m"]
  by (simp add: matrix_apply_def)

lemma matrix_odot_nth:
  "k < rows dst * columns dst \<Longrightarrow> k < length (data dst) \<Longrightarrow>
   data (matrix_odot dst src) ! k = data dst ! k * data src ! k"
  using fold_pointwise_nth[of k "data dst" "\<lambda>i x. x * data src ! i" "rows dst * columns dst"]
  by (simp add: matrix_odot_def)

lemma backpropagate_layer_length [simp]: "length (backpropagate_layer i ls) = length ls"
  by (simp add: backpropagate_layer_def Let_def)

lemma backpropagate_layer_other: "j \<noteq> i \<Longrightarrow> backpropagate_layer i ls ! j = ls ! j"
  by (simp add: backpropagate_layer_def Let_def)

lemma fold_backpropagate_layer_length [simp]:
  "length (fold backpropagate_layer xs ls) = length ls"
  by (induction xs arbitrary: ls) simp_all

lemma fold_backpropagate_layer_other:
  "j \<notin> set xs \<Longrightarrow> fold backpropagate_layer xs ls ! j = ls ! j"
  by (induction xs arbitrary: ls) (simp_all add: backpropagate_layer_other)

lemma gradient_layer_length [simp]: "length (snd (gradient_layer B i (inp, ls))) = length ls"
  by (simp add: gradient_layer_def Let_def split_beta)

lemma gradient_layer_eq:
  "gradient_layer B i (inp, ls) =
     (output (ls ! i),
      ls[i := (ls ! i)\<lparr>gradWeights := matrix_divide (matrix_dot_transpose inp (deltas (ls ! i))
                                                      (gradWeights (ls ! i))) (real B),
                        gradBiases := matrix_divide (matrix_sum_rows_transpose (deltas (ls ! i))
                                                      (gradBiases (ls ! i))) (real B)\<rparr>])"
proof (cases "i < length ls")
  case True
  then show ?thesis by (simp add: gradient_layer_def Let_def)
next
  case False
  then have "length ls \<le> i" by simp
  then show ?thesis by (simp add: gradient_layer_def Let_def list_update_beyond)
qed

lemma gradient_layer_keeps:
  "deltas (snd (gradient_layer B i (inp, ls)) ! j) = deltas (ls ! j)"
  "errors (snd (gradient_layer B i (inp, ls)) ! j) = errors (ls ! j)"
  "weights (snd (gradient_layer B i (inp, ls)) ! j) = weights (ls ! j)"
  "biases (snd (gradient_layer B i (inp, ls)) ! j) = biases (ls ! j)"
  "output (snd (gradient_layer B i (inp, ls)) ! j) = output (ls ! j)"
  by (cases "i < length ls"; simp add: gradient_layer_eq nth_list_update list_update_beyond)+

lemma fold_gradient_layer_field:
  assumes "\<And>i inp ls j. P (snd (gradient_layer B i (inp, ls)) ! j) = P (ls ! j)"
  shows "P (snd (fold (gradient_layer B) xs (inp, ls)) ! j) = P (ls ! j)"
proof (induction xs arbitrary: inp ls)
  case Nil
  show ?case by simp
next
  case (Cons x xs)
  have "P (snd (fold (gradient_layer B) xs (fst (gradient_layer B x (inp, ls)),
                                            snd (gradient_layer B x (inp, ls)))) ! j)
          = P (snd (gradient_layer B x (inp, ls)) ! j)"
    by (rule Cons.IH)
  then show ?case by (simp add: assms)
qed

lemma fold_gradient_layer_keeps:
  "deltas (snd (fold (gradient_layer B) xs (inp, ls)) ! j) = deltas (ls ! j)"
  "errors (snd (fold (gradient_layer B) xs (inp, ls)) ! j) = errors (ls ! j)"
  "weights (snd (fold (gradient_layer B) xs (inp, ls)) ! j) = weights (ls ! j)"
  "biases (snd (fold (gradient_layer B) xs (inp, ls)) ! j) = biases (ls ! j)"
  "output (snd (fold (gradient_layer B) xs (inp, ls)) ! j) = output (ls ! j)"
  by (rule fold_gradient_layer_field, rule gradient_layer_keeps)+

lemma nth_update_0: "xs \<noteq> [] \<Longrightarrow> xs[0 := x] ! 0 = x"
  by (cases xs) simp_all

lemma backpropagate_output_layer:
  assumes n: "depth mlp < length (layers mlp)"
  shows "deltas (layers (snd (mlp_backpropagate mlp y code)) ! depth mlp) =
          (if depth mlp > 0
           then matrix_odot (matrix_apply (matrix_copy (deltas (layers mlp ! depth mlp)) (mlp_output mlp))
                               (activationDeriv (layers mlp ! depth mlp)))
                  (snd (getLossFunction code (mlp_output mlp) y (errors (layers mlp ! depth mlp))))
           else matrix_apply (matrix_copy (deltas (layers mlp ! depth mlp)) (mlp_output mlp))
                               (activationDeriv (layers mlp ! depth mlp)))"
    (is "?D = ?rhs")
    and "errors (layers (snd (mlp_backpropagate mlp y code)) ! depth mlp) =
           snd (getLossFunction code (mlp_output mlp) y (errors (layers mlp ! depth mlp)))"
    (is "?E = ?e")
proof -
  define L where "L = layers mlp ! depth mlp"
  define ls1 where "ls1 = (layers mlp)[depth mlp := L\<lparr>errors := ?e\<rparr>]"
  define ls2 where "ls2 = ls1[depth mlp := (ls1 ! depth mlp)\<lparr>deltas :=
                       matrix_copy (deltas (ls1 ! depth mlp)) (mlp_output mlp)\<rparr>]"
  define ls3 where "ls3 = ls2[depth mlp := (ls2 ! depth mlp)\<lparr>deltas :=
                       matrix_apply (deltas (ls2 ! depth mlp)) (activationDeriv (ls2 ! depth mlp))\<rparr>]"
  define ls4 where "ls4 = (if depth mlp > 0
                           then ls3[depth mlp := (ls3 ! depth mlp)\<lparr>deltas :=
                                  matrix_odot (deltas (ls3 ! depth mlp)) (errors (ls3 ! depth mlp))\<rparr>]
                           else ls3)"
  define ls5 where "ls5 = fold backpropagate_layer (rev [0..<depth mlp]) ls4"
  have layers': "layers (snd (mlp_backpropagate mlp y code))
                   = snd (fold (gradient_layer (batchSize mlp)) [0..<depth mlp + 1] (input mlp, ls5))"
    unfolding mlp_backpropagate_def Let_def split_beta ls5_def ls4_def ls3_def ls2_def ls1_def L_def
    by simp
  have len: "length ls1 = length (layers mlp)" "length ls2 = length (layers mlp)"
    "length ls3 = length (layers mlp)"
    by (simp_all add: ls1_def ls2_def ls3_def)
  have 1: "ls1 ! depth mlp = L\<lparr>errors := ?e\<rparr>"
    using n by (simp add: ls1_def)
  have 2: "ls2 ! depth mlp = L\<lparr>errors := ?e, deltas := matrix_copy (deltas L) (mlp_output mlp)\<rparr>"
    using n len by (simp add: ls2_def 1)
  have 3: "ls3 ! depth mlp = L\<lparr>errors := ?e, deltas :=
             matrix_apply (matrix_copy (deltas L) (mlp_output mlp)) (activationDeriv L)\<rparr>"
    using n len by (simp add: ls3_def 2)
  have 4: "deltas (ls4 ! depth mlp) = ?rhs \<and> errors (ls4 ! depth mlp) = ?e"
  proof (cases "0 < depth mlp")
    case True
    then have "ls4 = ls3[depth mlp := (ls3 ! depth mlp)\<lparr>deltas :=
                       matrix_odot (deltas (ls3 ! depth mlp)) (errors (ls3 ! depth mlp))\<rparr>]"
      by (simp add: ls4_def)
    then have "ls4 ! depth mlp = (ls3 ! depth mlp)\<lparr>deltas :=
                       matrix_odot (deltas (ls3 ! depth mlp)) (errors (ls3 ! depth mlp))\<rparr>"
      using n len by simp
    then have "deltas (ls4 ! depth mlp)
                 = matrix_odot (matrix_apply (matrix_copy (deltas L) (mlp_output mlp)) (activationDeriv L)) ?e"
      and "errors (ls4 ! depth mlp) = ?e"
      by (simp_all add: 3)
    moreover have "?rhs = matrix_odot (matrix_apply (matrix_copy (deltas L) (mlp_output mlp))
                                         (activationDeriv L)) ?e"
      using True unfolding L_def by (rule if_P)
    ultimately show ?thesis by simp
  next
    case False
    then have "ls4 = ls3" by (simp add: ls4_def)
    then have "deltas (ls4 ! depth mlp)
                 = matrix_apply (matrix_copy (deltas L) (mlp_output mlp)) (activationDeriv L)"
      and "errors (ls4 ! depth mlp) = ?e"
      by (simp_all add: 3)
    moreover have "?rhs = matrix_apply (matrix_copy (deltas L) (mlp_output mlp)) (activationDeriv L)"
      using False unfolding L_def by (rule if_not_P)
    ultimately show ?thesis by simp
  qed
  have 5: "ls5 ! depth mlp = ls4 ! depth mlp"
    unfolding ls5_def by (rule fold_backpropagate_layer_other) simp
  have "?D = deltas (ls5 ! depth mlp)"
    unfolding layers' by (rule fold_gradient_layer_keeps)
  then show "?D = ?rhs" using 4 by (simp only: 5)
  have "?E = errors (ls5 ! depth mlp)"
    unfolding layers' by (rule fold_gradient_layer_keeps)
  then show "?E = ?e" using 4 by (simp only: 5)
qed

text \<open>
  C4. After \<^verbatim>\<open>mlp_backpropagate\<close> the errors of the output layer are those the loss
  function produced, and every cell of the deltas of the output layer is the activation
  derivative of the same cell of the public output matrix, multiplied by the cell of
  the errors when \<open>depth > 0\<close> and not multiplied by it when \<open>depth = 0\<close>. The later
  loops of the function leave these deltas as they are.
\<close>

theorem output_layer_deltas:
  assumes "depth mlp < length (layers mlp)"
    and "length (data (deltas (layers mlp ! depth mlp)))
           = rows (deltas (layers mlp ! depth mlp)) * columns (deltas (layers mlp ! depth mlp))"
  shows "errors (layers (snd (mlp_backpropagate mlp y code)) ! depth mlp)
           = snd (getLossFunction code (mlp_output mlp) y (errors (layers mlp ! depth mlp)))
       \<and> (\<forall>k < rows (deltas (layers mlp ! depth mlp)) * columns (deltas (layers mlp ! depth mlp)).
            data (deltas (layers (snd (mlp_backpropagate mlp y code)) ! depth mlp)) ! k =
              (if depth mlp > 0
               then activationDeriv (layers mlp ! depth mlp) (data (mlp_output mlp) ! k)
                    * data (errors (layers (snd (mlp_backpropagate mlp y code)) ! depth mlp)) ! k
               else activationDeriv (layers mlp ! depth mlp) (data (mlp_output mlp) ! k)))"
proof -
  define L where "L = layers mlp ! depth mlp"
  define e where "e = errors (layers (snd (mlp_backpropagate mlp y code)) ! depth mlp)"
  define D where "D = matrix_apply (matrix_copy (deltas L) (mlp_output mlp)) (activationDeriv L)"
  have A: "data D ! k = activationDeriv L (data (mlp_output mlp) ! k)"
    if "k < rows (deltas L) * columns (deltas L)" for k
    using that assms(2) by (simp add: D_def L_def matrix_apply_nth matrix_copy_nth)
  have B: "data (matrix_odot D e) ! k = activationDeriv L (data (mlp_output mlp) ! k) * data e ! k"
    if "k < rows (deltas L) * columns (deltas L)" for k
    using that A[OF that] assms(2) by (simp add: matrix_odot_nth D_def L_def)
  have E: "e = snd (getLossFunction code (mlp_output mlp) y (errors L))"
    unfolding e_def L_def by (rule backpropagate_output_layer(2)[OF assms(1)])
  have "deltas (layers (snd (mlp_backpropagate mlp y code)) ! depth mlp)
          = (if depth mlp > 0 then matrix_odot D e else D)"
    unfolding D_def E L_def by (rule backpropagate_output_layer(1)[OF assms(1)])
  then have "data (deltas (layers (snd (mlp_backpropagate mlp y code)) ! depth mlp)) ! k
          = (if depth mlp > 0 then activationDeriv L (data (mlp_output mlp) ! k) * data e ! k
             else activationDeriv L (data (mlp_output mlp) ! k))"
    if "k < rows (deltas L) * columns (deltas L)" for k
    using A[OF that] B[OF that] by (cases "0 < depth mlp") (simp_all only: if_P if_not_P not_False_eq_True)
  then show ?thesis using E unfolding L_def e_def by blast
qed

theorem output_layer_deltas_witness:
  "data (deltas (layers (snd (mlp_backpropagate example_hidden_mlp
                                 \<lparr>rows = 1, columns = 1, data = [3]\<rparr> LOSS_NONE)) ! 1)) ! 0 = 3
   \<and> data (deltas (layers (snd (mlp_backpropagate (example_mlp 2 1 1 [1 / 2, - 1 / 4] ACTIVATION_TANH)
                                 \<lparr>rows = 1, columns = 1, data = [3]\<rparr> LOSS_NONE)) ! 0)) ! 0 = 1"
proof -
  have codes: "getLossFunction LOSS_NONE = errorFunction"
    "getActivationFunctionDeriv ACTIVATION_LINEAR = activation_linearDeriv"
    "getActivationFunctionDeriv ACTIVATION_TANH = activation_tanhDeriv"
    by (simp_all add: getLossFunction_def getActivationFunctionDeriv_def LOSS_NONE_def LOSS_MSE_def
        ACTIVATION_LINEAR_def ACTIVATION_SIGMOID_def ACTIVATION_TANH_def ACTIVATION_RELU_def)
  have "data (deltas (layers (snd (mlp_backpropagate example_hidden_mlp
                                 \<lparr>rows = 1, columns = 1, data = [3]\<rparr> LOSS_NONE)) ! 1)) ! 0 = 3"
    using output_layer_deltas[of example_hidden_mlp "\<lparr>rows = 1, columns = 1, data = [3]\<rparr>" LOSS_NONE]
    by (simp add: example_hidden_mlp_def example_layer_def zeros_def codes errorFunction_def
        matrix_copy_def activation_linearDeriv_def)
  moreover
  have "data (deltas (layers (snd (mlp_backpropagate (example_mlp 2 1 1 [1 / 2, - 1 / 4] ACTIVATION_TANH)
                                 \<lparr>rows = 1, columns = 1, data = [3]\<rparr> LOSS_NONE)) ! 0)) ! 0 = 1"
    using output_layer_deltas[of "example_mlp 2 1 1 [1 / 2, - 1 / 4] ACTIVATION_TANH"
        "\<lparr>rows = 1, columns = 1, data = [3]\<rparr>" LOSS_NONE]
    by (simp add: example_mlp_def example_layer_def zeros_def codes activation_tanhDeriv_def
        double_sub_def double_mul_def)
  ultimately show ?thesis by simp
qed

lemma backpropagate_depth_0:
  assumes d: "depth mlp = 0" and ne: "layers mlp \<noteq> []"
  shows "mlp_backpropagate mlp y code =
     (let L = layers mlp ! 0;
          D = matrix_apply (matrix_copy (deltas L) (mlp_output mlp)) (activationDeriv L)
      in (fst (getLossFunction code (mlp_output mlp) y (errors L)),
          mlp\<lparr>layers := (layers mlp)[0 := L
                   \<lparr>errors := snd (getLossFunction code (mlp_output mlp) y (errors L)),
                    deltas := D,
                    gradWeights := matrix_divide (matrix_dot_transpose (input mlp) D (gradWeights L))
                                     (real (batchSize mlp)),
                    gradBiases := matrix_divide (matrix_sum_rows_transpose D (gradBiases L))
                                    (real (batchSize mlp))\<rparr>],
              inputErrors := matrix_dot D (weights L) (inputErrors mlp)\<rparr>))"
proof -
  have one: "[0..<Suc 0] = [0]" by simp
  show ?thesis
    unfolding mlp_backpropagate_def Let_def split_beta d
    using ne
    by (simp add: gradient_layer_eq nth_update_0 one del: upt_Suc)
qed


lemma errorFunction_mean:
  assumes "length (data error) = rows error * columns error"
  shows "fst (errorFunction yhat y error)
           = fold (\<lambda>i s. s + data y ! i) [0..<rows error * columns error] 0
               / real (rows error * columns error)"
proof -
  have "fold (\<lambda>i s. s + data (matrix_copy error y) ! i) [0..<rows error * columns error] 0
          = fold (\<lambda>i s. s + data y ! i) [0..<rows error * columns error] 0"
    using assms by (intro fold_cong) (simp_all add: matrix_copy_nth)
  then show ?thesis
    by (simp add: errorFunction_def Let_def)
qed

lemma errorFunction_errors: "snd (errorFunction yhat y error) = matrix_copy error y"
  by (simp add: errorFunction_def Let_def)

lemma getLossFunction_NONE: "getLossFunction LOSS_NONE = errorFunction"
  by (simp add: getLossFunction_def LOSS_NONE_def LOSS_MSE_def)

text \<open>
  C6. For a network without hidden layers, two runs of \<^verbatim>\<open>mlp_backpropagate\<close> with
  \<^verbatim>\<open>LOSS_NONE\<close> from the same state on targets \<open>y1\<close> and \<open>y2\<close> give the same weight
  gradients, bias gradients and input errors; the two resulting networks differ in the
  errors buffer of the layer only, which holds the copy of the target, and the scalar
  returned is the mean of the cells of the target.
\<close>

theorem depth_0_backpropagate_ignores_target:
  assumes "depth mlp = 0" "layers mlp \<noteq> []"
    and "length (data (errors (layers mlp ! 0)))
           = rows (errors (layers mlp ! 0)) * columns (errors (layers mlp ! 0))"
    and "rows y1 = rows (errors (layers mlp ! 0))" "columns y1 = columns (errors (layers mlp ! 0))"
  shows "gradWeights (layers (snd (mlp_backpropagate mlp y1 LOSS_NONE)) ! 0)
           = gradWeights (layers (snd (mlp_backpropagate mlp y2 LOSS_NONE)) ! 0)
       \<and> gradBiases (layers (snd (mlp_backpropagate mlp y1 LOSS_NONE)) ! 0)
           = gradBiases (layers (snd (mlp_backpropagate mlp y2 LOSS_NONE)) ! 0)
       \<and> inputErrors (snd (mlp_backpropagate mlp y1 LOSS_NONE))
           = inputErrors (snd (mlp_backpropagate mlp y2 LOSS_NONE))
       \<and> snd (mlp_backpropagate mlp y1 LOSS_NONE)
           = (snd (mlp_backpropagate mlp y2 LOSS_NONE))
               \<lparr>layers := (layers (snd (mlp_backpropagate mlp y2 LOSS_NONE)))
                  [0 := (layers (snd (mlp_backpropagate mlp y2 LOSS_NONE)) ! 0)
                          \<lparr>errors := matrix_copy (errors (layers mlp ! 0)) y1\<rparr>]\<rparr>
       \<and> fst (mlp_backpropagate mlp y1 LOSS_NONE)
           = fold (\<lambda>i s. s + data y1 ! i) [0..<rows y1 * columns y1] 0 / real (rows y1 * columns y1)"
proof -
  define L where "L = layers mlp ! 0"
  define D where "D = matrix_apply (matrix_copy (deltas L) (mlp_output mlp)) (activationDeriv L)"
  define GW where "GW = matrix_divide (matrix_dot_transpose (input mlp) D (gradWeights L))
                       (real (batchSize mlp))"
  define GB where "GB = matrix_divide (matrix_sum_rows_transpose D (gradBiases L))
                      (real (batchSize mlp))"
  define IE where "IE = matrix_dot D (weights L) (inputErrors mlp)"
  have bp: "snd (mlp_backpropagate mlp y LOSS_NONE)
              = mlp\<lparr>layers := (layers mlp)[0 := L\<lparr>errors := matrix_copy (errors L) y, deltas := D,
                                                  gradWeights := GW, gradBiases := GB\<rparr>],
                     inputErrors := IE\<rparr>" for y
    by (simp add: backpropagate_depth_0[OF assms(1,2)] Let_def getLossFunction_NONE
        errorFunction_errors GW_def GB_def IE_def D_def L_def)
  have l: "layers (snd (mlp_backpropagate mlp y LOSS_NONE)) ! 0
             = L\<lparr>errors := matrix_copy (errors L) y, deltas := D,
                 gradWeights := GW, gradBiases := GB\<rparr>" for y
    using assms(2) by (simp add: bp nth_update_0)
  have g: "gradWeights (layers (snd (mlp_backpropagate mlp y LOSS_NONE)) ! 0) = GW"
    "gradBiases (layers (snd (mlp_backpropagate mlp y LOSS_NONE)) ! 0) = GB"
    "inputErrors (snd (mlp_backpropagate mlp y LOSS_NONE)) = IE" for y
    by (simp_all add: l) (simp add: bp)
  have whole: "snd (mlp_backpropagate mlp y1 LOSS_NONE)
           = (snd (mlp_backpropagate mlp y2 LOSS_NONE))
               \<lparr>layers := (layers (snd (mlp_backpropagate mlp y2 LOSS_NONE)))
                  [0 := (layers (snd (mlp_backpropagate mlp y2 LOSS_NONE)) ! 0)
                          \<lparr>errors := matrix_copy (errors L) y1\<rparr>]\<rparr>"
  proof -
    have LL: "L\<lparr>errors := e2, deltas := D, gradWeights := GW, gradBiases := GB\<rparr>\<lparr>errors := e1\<rparr>
                = L\<lparr>errors := e1, deltas := D, gradWeights := GW, gradBiases := GB\<rparr>" for e1 e2
      by (rule Layer.equality) simp_all
    show ?thesis
      unfolding l LL by (rule MLP.equality) (simp_all add: bp)
  qed
  have "fst (mlp_backpropagate mlp y1 LOSS_NONE) = fst (errorFunction (mlp_output mlp) y1 (errors L))"
    by (simp add: backpropagate_depth_0[OF assms(1,2)] Let_def getLossFunction_NONE L_def)
  also have "\<dots> = fold (\<lambda>i s. s + data y1 ! i) [0..<rows y1 * columns y1] 0
                      / real (rows y1 * columns y1)"
    using errorFunction_mean[of "errors L" "mlp_output mlp" y1] assms(3,4,5)
    by (simp add: L_def)
  finally have mean: "fst (mlp_backpropagate mlp y1 LOSS_NONE)
           = fold (\<lambda>i s. s + data y1 ! i) [0..<rows y1 * columns y1] 0 / real (rows y1 * columns y1)" .
  show ?thesis
    using g[of y1] g[of y2] whole mean unfolding L_def by simp
qed


theorem depth_0_backpropagate_ignores_target_witness:
  "gradWeights (layers (snd (mlp_backpropagate (example_mlp 3 1 1 [1 / 4, 1 / 2, - 1 / 2] ACTIVATION_LINEAR)
                               \<lparr>rows = 1, columns = 1, data = [5]\<rparr> LOSS_NONE)) ! 0)
     = gradWeights (layers (snd (mlp_backpropagate (example_mlp 3 1 1 [1 / 4, 1 / 2, - 1 / 2] ACTIVATION_LINEAR)
                               \<lparr>rows = 1, columns = 1, data = [7]\<rparr> LOSS_NONE)) ! 0)
   \<and> fst (mlp_backpropagate (example_mlp 3 1 1 [1 / 4, 1 / 2, - 1 / 2] ACTIVATION_LINEAR)
            \<lparr>rows = 1, columns = 1, data = [5]\<rparr> LOSS_NONE) = 5"
proof -
  let ?m = "example_mlp 3 1 1 [1 / 4, 1 / 2, - 1 / 2] ACTIVATION_LINEAR"
  let ?y1 = "\<lparr>rows = 1, columns = 1, data = [5]\<rparr> :: double Matrix"
  let ?y2 = "\<lparr>rows = 1, columns = 1, data = [7]\<rparr> :: double Matrix"
  have h: "depth ?m = 0" "layers ?m \<noteq> []"
    "length (data (errors (layers ?m ! 0))) = rows (errors (layers ?m ! 0)) * columns (errors (layers ?m ! 0))"
    "rows ?y1 = rows (errors (layers ?m ! 0))" "columns ?y1 = columns (errors (layers ?m ! 0))"
    by (simp_all add: example_mlp_def example_layer_def zeros_def)
  note inst = depth_0_backpropagate_ignores_target[OF h, of ?y2]
  from inst have "gradWeights (layers (snd (mlp_backpropagate ?m ?y1 LOSS_NONE)) ! 0)
                    = gradWeights (layers (snd (mlp_backpropagate ?m ?y2 LOSS_NONE)) ! 0)"
    by (rule conjunct1)
  moreover from inst have "fst (mlp_backpropagate ?m ?y1 LOSS_NONE)
      = fold (\<lambda>i s. s + data ?y1 ! i) [0..<rows ?y1 * columns ?y1] 0 / real (rows ?y1 * columns ?y1)"
    by blast
  then have "fst (mlp_backpropagate ?m ?y1 LOSS_NONE) = 5" by simp
  ultimately show ?thesis by (rule conjI)
qed

section \<open>Adam\<close>

lemma fold_shift: "fold (\<lambda>col. f (b + col)) [0..<C] = fold f [b..<b + C]"
  by (induction C) simp_all

lemma nested_fold_flat:
  "fold (\<lambda>row. fold (\<lambda>col. f (row * C + col)) [0..<C]) [0..<R] = fold f [0..<R * C]"
proof (induction R)
  case 0
  show ?case by simp
next
  case (Suc R)
  have "Suc R * C = R * C + C" by simp
  then have "[0..<Suc R * C] = [0..<R * C + C]" by (rule arg_cong)
  also have "\<dots> = [0..<R * C] @ [R * C..<R * C + C]"
    by (rule upt_add_eq_append) simp
  finally have split: "[0..<Suc R * C] = [0..<R * C] @ [R * C..<R * C + C]" .
  have "fold (\<lambda>row. fold (\<lambda>col. f (row * C + col)) [0..<C]) [0..<Suc R]
          = fold (\<lambda>col. f (R * C + col)) [0..<C] \<circ> fold f [0..<R * C]"
    using Suc by simp
  also have "\<dots> = fold f [R * C..<R * C + C] \<circ> fold f [0..<R * C]"
    by (simp only: fold_shift)
  also have "\<dots> = fold f [0..<Suc R * C]"
    by (simp only: split fold_append)
  finally show ?case .
qed

lemma adam_weight_cells:
  assumes "n \<le> length w" "n \<le> length m" "n \<le> length v"
  shows "fold (adam_weight_cell adam g) [0..<n] (w, m, v) =
          (map (\<lambda>j. w ! j - alpha adam * (adam_mhat adam (m ! j) (g ! j)
                                          / (sqrt (adam_vhat adam (v ! j) (g ! j)) + epsilon adam)))
               [0..<n] @ drop n w,
           map (\<lambda>j. beta1 adam * m ! j + (1 - beta1 adam) * g ! j) [0..<n] @ drop n m,
           map (\<lambda>j. beta2 adam * v ! j + (1 - beta2 adam) * g ! j * g ! j) [0..<n] @ drop n v)"
  using assms
proof (induction n)
  case 0
  show ?case by simp
next
  case (Suc n)
  have upd: "(map f [0..<n] @ drop n xs)[n := y] = map f [0..<n] @ y # drop (Suc n) xs"
    if "n < length xs" for f :: "nat \<Rightarrow> double" and xs y
    using that by (simp add: list_update_append Cons_nth_drop_Suc[symmetric])
  have nth: "(map f [0..<n] @ drop n xs) ! n = xs ! n"
    if "n < length xs" for f :: "nat \<Rightarrow> double" and xs
    using that by (simp add: nth_append)
  have nth': "(map f [0..<n] @ y # ys) ! n = y" for f :: "nat \<Rightarrow> double" and y ys
    by (simp add: nth_append)
  from Suc.prems have lt: "n < length w" "n < length m" "n < length v" by simp_all
  show ?case
    using Suc.IH lt
    by (simp add: adam_weight_cell_def Let_def upd nth nth' adam_mhat_def adam_vhat_def)
qed


lemma adam_bias_cells:
  assumes "n \<le> length b" "n \<le> length m" "n \<le> length v"
  shows "fold (adam_bias_cell adam g) [0..<n] (b, m, v) =
          (map (\<lambda>j. b ! j - alpha adam * (adam_mhat adam (m ! j) (g ! j)
                                          / sqrt (adam_vhat adam (v ! j) (g ! j)) + epsilon adam))
               [0..<n] @ drop n b,
           map (\<lambda>j. beta1 adam * m ! j + (1 - beta1 adam) * g ! j) [0..<n] @ drop n m,
           map (\<lambda>j. beta2 adam * v ! j + (1 - beta2 adam) * g ! j * g ! j) [0..<n] @ drop n v)"
  using assms
proof (induction n)
  case 0
  show ?case by simp
next
  case (Suc n)
  have upd: "(map f [0..<n] @ drop n xs)[n := y] = map f [0..<n] @ y # drop (Suc n) xs"
    if "n < length xs" for f :: "nat \<Rightarrow> double" and xs y
    using that by (simp add: list_update_append Cons_nth_drop_Suc[symmetric])
  have nth: "(map f [0..<n] @ drop n xs) ! n = xs ! n"
    if "n < length xs" for f :: "nat \<Rightarrow> double" and xs
    using that by (simp add: nth_append)
  have nth': "(map f [0..<n] @ y # ys) ! n = y" for f :: "nat \<Rightarrow> double" and y ys
    by (simp add: nth_append)
  from Suc.prems have lt: "n < length b" "n < length m" "n < length v" by simp_all
  show ?case
    using Suc.IH lt
    by (simp add: adam_bias_cell_def Let_def upd nth nth' adam_mhat_def adam_vhat_def)
qed

lemma map_upt_drop_nth:
  "k < n \<Longrightarrow> (map f [0..<n] @ xs) ! k = f k"
  by (simp add: nth_append)

lemma adam_layer_weights:
  assumes "i < length (layers mlp)"
    and "rows (weights (layers mlp ! i)) * columns (weights (layers mlp ! i))
           \<le> length (data (weights (layers mlp ! i)))"
    and "rows (weights (layers mlp ! i)) * columns (weights (layers mlp ! i))
           \<le> length (data (mw adam ! i))"
    and "rows (weights (layers mlp ! i)) * columns (weights (layers mlp ! i))
           \<le> length (data (vw adam ! i))"
    and "idx < rows (weights (layers mlp ! i)) * columns (weights (layers mlp ! i))"
  shows "data (weights (layers (fst (adam_layer i (mlp, adam))) ! i)) ! idx =
           data (weights (layers mlp ! i)) ! idx
           - alpha adam * (adam_mhat adam (data (mw adam ! i) ! idx) (data (gradWeights (layers mlp ! i)) ! idx)
                           / (sqrt (adam_vhat adam (data (vw adam ! i) ! idx)
                                      (data (gradWeights (layers mlp ! i)) ! idx)) + epsilon adam))"
  using assms
  by (simp add: adam_layer_def Let_def split_beta nested_fold_flat adam_weight_cells map_upt_drop_nth)

lemma adam_layer_biases:
  assumes "i < length (layers mlp)"
    and "rows (biases (layers mlp ! i)) * columns (biases (layers mlp ! i))
           \<le> length (data (biases (layers mlp ! i)))"
    and "rows (biases (layers mlp ! i)) * columns (biases (layers mlp ! i))
           \<le> length (data (mb adam ! i))"
    and "rows (biases (layers mlp ! i)) * columns (biases (layers mlp ! i))
           \<le> length (data (vb adam ! i))"
    and "idx < rows (biases (layers mlp ! i)) * columns (biases (layers mlp ! i))"
  shows "data (biases (layers (fst (adam_layer i (mlp, adam))) ! i)) ! idx =
           data (biases (layers mlp ! i)) ! idx
           - alpha adam * (adam_mhat adam (data (mb adam ! i) ! idx) (data (gradBiases (layers mlp ! i)) ! idx)
                           / sqrt (adam_vhat adam (data (vb adam ! i) ! idx)
                                     (data (gradBiases (layers mlp ! i)) ! idx)) + epsilon adam)"
  using assms
  by (simp add: adam_layer_def Let_def split_beta nested_fold_flat adam_bias_cells map_upt_drop_nth)

lemma adam_layer_scalars:
  "alpha (snd (adam_layer j s)) = alpha (snd s)"
  "beta1 (snd (adam_layer j s)) = beta1 (snd s)"
  "beta2 (snd (adam_layer j s)) = beta2 (snd s)"
  "beta1t (snd (adam_layer j s)) = beta1t (snd s)"
  "beta2t (snd (adam_layer j s)) = beta2t (snd s)"
  "epsilon (snd (adam_layer j s)) = epsilon (snd s)"
  "length (layers (fst (adam_layer j s))) = length (layers (fst s))"
  "length (mw (snd (adam_layer j s))) = length (mw (snd s))"
  "length (vw (snd (adam_layer j s))) = length (vw (snd s))"
  "length (mb (snd (adam_layer j s))) = length (mb (snd s))"
  "length (vb (snd (adam_layer j s))) = length (vb (snd s))"
  by (simp_all add: adam_layer_def Let_def split_beta)

lemma adam_layer_other:
  assumes "j \<noteq> i"
  shows "layers (fst (adam_layer j s)) ! i = layers (fst s) ! i"
    "mw (snd (adam_layer j s)) ! i = mw (snd s) ! i"
    "vw (snd (adam_layer j s)) ! i = vw (snd s) ! i"
    "mb (snd (adam_layer j s)) ! i = mb (snd s) ! i"
    "vb (snd (adam_layer j s)) ! i = vb (snd s) ! i"
  using assms by (simp_all add: adam_layer_def Let_def split_beta)

text \<open>What a round of the loop over the layers reads of layer \<open>i\<close>, and the scalars of Adam.\<close>

lemma fold_adam_layer_other:
  assumes "i \<notin> set xs"
  shows "layers (fst (fold adam_layer xs s)) ! i = layers (fst s) ! i
       \<and> mw (snd (fold adam_layer xs s)) ! i = mw (snd s) ! i
       \<and> vw (snd (fold adam_layer xs s)) ! i = vw (snd s) ! i
       \<and> mb (snd (fold adam_layer xs s)) ! i = mb (snd s) ! i
       \<and> vb (snd (fold adam_layer xs s)) ! i = vb (snd s) ! i"
  using assms
proof (induction xs arbitrary: s)
  case Nil
  show ?case by simp
next
  case (Cons x xs)
  then have "x \<noteq> i" "i \<notin> set xs" by auto
  then show ?case
    using Cons.IH[of "adam_layer x s"] by (simp add: adam_layer_other)
qed

lemma fold_adam_layer_scalars:
  "alpha (snd (fold adam_layer xs s)) = alpha (snd s)
   \<and> beta1 (snd (fold adam_layer xs s)) = beta1 (snd s)
   \<and> beta2 (snd (fold adam_layer xs s)) = beta2 (snd s)
   \<and> beta1t (snd (fold adam_layer xs s)) = beta1t (snd s)
   \<and> beta2t (snd (fold adam_layer xs s)) = beta2t (snd s)
   \<and> epsilon (snd (fold adam_layer xs s)) = epsilon (snd s)
   \<and> length (layers (fst (fold adam_layer xs s))) = length (layers (fst s))"
proof (induction xs arbitrary: s)
  case Nil
  show ?case by simp
next
  case (Cons x xs)
  show ?case
    using Cons.IH[of "adam_layer x s"] by (simp add: adam_layer_scalars)
qed

lemma adam_hat_cong:
  assumes "beta1 a = beta1 b" "beta2 a = beta2 b" "beta1t a = beta1t b" "beta2t a = beta2t b"
  shows "adam_mhat a = adam_mhat b" "adam_vhat a = adam_vhat b"
  using assms by (simp_all add: adam_mhat_def adam_vhat_def fun_eq_iff)

lemma adam_optimize_layer:
  assumes "i < adam_depth adam"
  shows "layers (fst (adam_optimize mlp adam)) ! i
           = layers (fst (adam_layer i (fold adam_layer [0..<i] (mlp, adam\<lparr>t := t adam + 1\<rparr>)))) ! i"
proof -
  let ?s0 = "(mlp, adam\<lparr>t := t adam + 1\<rparr>)"
  have "[0..<adam_depth adam] = [0..<i] @ [i..<adam_depth adam]"
    using assms by (metis le0 less_imp_le_nat upt_add_eq_append le_add_diff_inverse)
  also have "[i..<adam_depth adam] = i # [Suc i..<adam_depth adam]"
    using assms by (rule upt_conv_Cons)
  finally have split: "[0..<adam_depth adam] = [0..<i] @ i # [Suc i..<adam_depth adam]" .
  have "fst (adam_optimize mlp adam) = fst (fold adam_layer [0..<adam_depth adam] ?s0)"
    by (simp add: adam_optimize_def Let_def split_beta)
  also have "\<dots> = fst (fold adam_layer [Suc i..<adam_depth adam]
                            (adam_layer i (fold adam_layer [0..<i] ?s0)))"
    by (simp add: split)
  finally have "layers (fst (adam_optimize mlp adam)) ! i
      = layers (fst (fold adam_layer [Suc i..<adam_depth adam]
                            (adam_layer i (fold adam_layer [0..<i] ?s0)))) ! i"
    by simp
  also have "\<dots> = layers (fst (adam_layer i (fold adam_layer [0..<i] ?s0))) ! i"
    using fold_adam_layer_other[of i "[Suc i..<adam_depth adam]"] by simp
  finally show ?thesis .
qed

text \<open>
  C3. One call of \<^verbatim>\<open>adam_optimize\<close>, from any state of the network and the optimizer,
  changes every weight \<open>w\<close> of every layer to \<open>w - alpha (mhat / (sqrt vhat + epsilon))\<close>
  and every bias \<open>b\<close> of every layer to \<open>b - alpha (mhat / sqrt vhat + epsilon)\<close>, where
  \<open>mhat\<close> and \<open>vhat\<close> are the bias-corrected moments of the parameter: \<open>epsilon\<close> is
  inside the denominator for the weights and outside the division for the biases.
\<close>

theorem adam_optimize_weights_and_biases:
  assumes "i < adam_depth adam" "i < length (layers mlp)"
    and "rows (weights (layers mlp ! i)) * columns (weights (layers mlp ! i))
           = length (data (weights (layers mlp ! i)))"
    and "length (data (mw adam ! i)) = length (data (weights (layers mlp ! i)))"
    and "length (data (vw adam ! i)) = length (data (weights (layers mlp ! i)))"
    and "rows (biases (layers mlp ! i)) * columns (biases (layers mlp ! i))
           = length (data (biases (layers mlp ! i)))"
    and "length (data (mb adam ! i)) = length (data (biases (layers mlp ! i)))"
    and "length (data (vb adam ! i)) = length (data (biases (layers mlp ! i)))"
  shows "(\<forall>idx < rows (weights (layers mlp ! i)) * columns (weights (layers mlp ! i)).
            data (weights (layers (fst (adam_optimize mlp adam)) ! i)) ! idx =
              data (weights (layers mlp ! i)) ! idx
              - alpha adam *
                  (adam_mhat adam (data (mw adam ! i) ! idx) (data (gradWeights (layers mlp ! i)) ! idx)
                   / (sqrt (adam_vhat adam (data (vw adam ! i) ! idx)
                              (data (gradWeights (layers mlp ! i)) ! idx)) + epsilon adam)))
       \<and> (\<forall>idx < rows (biases (layers mlp ! i)) * columns (biases (layers mlp ! i)).
            data (biases (layers (fst (adam_optimize mlp adam)) ! i)) ! idx =
              data (biases (layers mlp ! i)) ! idx
              - alpha adam *
                  (adam_mhat adam (data (mb adam ! i) ! idx) (data (gradBiases (layers mlp ! i)) ! idx)
                   / sqrt (adam_vhat adam (data (vb adam ! i) ! idx)
                             (data (gradBiases (layers mlp ! i)) ! idx)) + epsilon adam))"
proof -
  let ?s0 = "(mlp, adam\<lparr>t := t adam + 1\<rparr>)"
  define s1 where "s1 = fold adam_layer [0..<i] ?s0"
  have slot: "layers (fst s1) ! i = layers mlp ! i" "mw (snd s1) ! i = mw adam ! i"
    "vw (snd s1) ! i = vw adam ! i" "mb (snd s1) ! i = mb adam ! i" "vb (snd s1) ! i = vb adam ! i"
    using fold_adam_layer_other[of i "[0..<i]" ?s0] by (simp_all add: s1_def)
  have sc: "alpha (snd s1) = alpha adam" "beta1 (snd s1) = beta1 adam" "beta2 (snd s1) = beta2 adam"
    "beta1t (snd s1) = beta1t adam" "beta2t (snd s1) = beta2t adam" "epsilon (snd s1) = epsilon adam"
    "length (layers (fst s1)) = length (layers mlp)"
    using fold_adam_layer_scalars[of "[0..<i]" ?s0] by (simp_all add: s1_def)
  have hat: "adam_mhat (snd s1) = adam_mhat adam" "adam_vhat (snd s1) = adam_vhat adam"
    by (rule adam_hat_cong[OF sc(2) sc(3) sc(4) sc(5)])+
  have L: "layers (fst (adam_optimize mlp adam)) ! i = layers (fst (adam_layer i (fst s1, snd s1))) ! i"
    using adam_optimize_layer[OF assms(1)] by (simp add: s1_def)
  have W: "data (weights (layers (fst (adam_optimize mlp adam)) ! i)) ! idx =
              data (weights (layers mlp ! i)) ! idx
              - alpha adam *
                  (adam_mhat adam (data (mw adam ! i) ! idx) (data (gradWeights (layers mlp ! i)) ! idx)
                   / (sqrt (adam_vhat adam (data (vw adam ! i) ! idx)
                              (data (gradWeights (layers mlp ! i)) ! idx)) + epsilon adam))"
    if "idx < rows (weights (layers mlp ! i)) * columns (weights (layers mlp ! i))" for idx
    using adam_layer_weights[of i "fst s1" "snd s1" idx] that assms(2-5)
    by (simp add: L slot sc hat)
  have B: "data (biases (layers (fst (adam_optimize mlp adam)) ! i)) ! idx =
              data (biases (layers mlp ! i)) ! idx
              - alpha adam *
                  (adam_mhat adam (data (mb adam ! i) ! idx) (data (gradBiases (layers mlp ! i)) ! idx)
                   / sqrt (adam_vhat adam (data (vb adam ! i) ! idx)
                             (data (gradBiases (layers mlp ! i)) ! idx)) + epsilon adam)"
    if "idx < rows (biases (layers mlp ! i)) * columns (biases (layers mlp ! i))" for idx
    using adam_layer_biases[of i "fst s1" "snd s1" idx] that assms(2,6-8)
    by (simp add: L slot sc hat)
  from W B show ?thesis by blast
qed


theorem adam_optimize_weights_and_biases_witness:
  "data (weights (layers (fst (adam_optimize
       ((example_mlp 2 1 1 [1 / 2, - 1 / 4] ACTIVATION_TANH)
          \<lparr>layers := [(example_layer 2 1 1 [1 / 2, - 1 / 4] ACTIVATION_TANH)
                       \<lparr>gradWeights := \<lparr>rows = 1, columns = 2, data = [1, 1]\<rparr>,
                        gradBiases := \<lparr>rows = 1, columns = 1, data = [1]\<rparr>\<rparr>]\<rparr>)
       (example_adam (example_mlp 2 1 1 [1 / 2, - 1 / 4] ACTIVATION_TANH)))) ! 0)) ! 0
     = 1 / 2 - 1 / 1000 * (1 / (1 + 1 / 10000000))
   \<and> data (biases (layers (fst (adam_optimize
       ((example_mlp 2 1 1 [1 / 2, - 1 / 4] ACTIVATION_TANH)
          \<lparr>layers := [(example_layer 2 1 1 [1 / 2, - 1 / 4] ACTIVATION_TANH)
                       \<lparr>gradWeights := \<lparr>rows = 1, columns = 2, data = [1, 1]\<rparr>,
                        gradBiases := \<lparr>rows = 1, columns = 1, data = [1]\<rparr>\<rparr>]\<rparr>)
       (example_adam (example_mlp 2 1 1 [1 / 2, - 1 / 4] ACTIVATION_TANH)))) ! 0)) ! 0
     = 0 - 1 / 1000 * (1 / 1 + 1 / 10000000)"
proof -
  let ?m = "(example_mlp 2 1 1 [1 / 2, - 1 / 4] ACTIVATION_TANH)
          \<lparr>layers := [(example_layer 2 1 1 [1 / 2, - 1 / 4] ACTIVATION_TANH)
                       \<lparr>gradWeights := \<lparr>rows = 1, columns = 2, data = [1, 1]\<rparr>,
                        gradBiases := \<lparr>rows = 1, columns = 1, data = [1]\<rparr>\<rparr>]\<rparr>"
  let ?a = "example_adam (example_mlp 2 1 1 [1 / 2, - 1 / 4] ACTIVATION_TANH)"
  have h: "0 < adam_depth ?a" "0 < length (layers ?m)"
    "rows (weights (layers ?m ! 0)) * columns (weights (layers ?m ! 0))
           = length (data (weights (layers ?m ! 0)))"
    "length (data (mw ?a ! 0)) = length (data (weights (layers ?m ! 0)))"
    "length (data (vw ?a ! 0)) = length (data (weights (layers ?m ! 0)))"
    "rows (biases (layers ?m ! 0)) * columns (biases (layers ?m ! 0))
           = length (data (biases (layers ?m ! 0)))"
    "length (data (mb ?a ! 0)) = length (data (biases (layers ?m ! 0)))"
    "length (data (vb ?a ! 0)) = length (data (biases (layers ?m ! 0)))"
    by (simp_all add: example_adam_def example_mlp_def example_layer_def zeros_def)
  have v: "data (weights (layers ?m ! 0)) ! 0 = 1 / 2" "data (biases (layers ?m ! 0)) ! 0 = 0"
    "data (gradWeights (layers ?m ! 0)) ! 0 = 1" "data (gradBiases (layers ?m ! 0)) ! 0 = 1"
    "data (mw ?a ! 0) ! 0 = 0" "data (vw ?a ! 0) ! 0 = 0" "data (mb ?a ! 0) ! 0 = 0" "data (vb ?a ! 0) ! 0 = 0"
    "alpha ?a = 1 / 1000" "epsilon ?a = 1 / 10000000"
    "(0::nat) < rows (weights (layers ?m ! 0)) * columns (weights (layers ?m ! 0))"
    "(0::nat) < rows (biases (layers ?m ! 0)) * columns (biases (layers ?m ! 0))"
    by (simp_all add: example_adam_def example_mlp_def example_layer_def zeros_def)
  have hat: "adam_mhat ?a 0 1 = 1" "adam_vhat ?a 0 1 = 1"
    by (simp_all add: adam_mhat_def adam_vhat_def example_adam_def)
  note inst = adam_optimize_weights_and_biases[OF h]
  from inst v(11) have "data (weights (layers (fst (adam_optimize ?m ?a)) ! 0)) ! 0 =
      data (weights (layers ?m ! 0)) ! 0
      - alpha ?a * (adam_mhat ?a (data (mw ?a ! 0) ! 0) (data (gradWeights (layers ?m ! 0)) ! 0)
                     / (sqrt (adam_vhat ?a (data (vw ?a ! 0) ! 0) (data (gradWeights (layers ?m ! 0)) ! 0))
                        + epsilon ?a))"
    by blast
  then have W: "data (weights (layers (fst (adam_optimize ?m ?a)) ! 0)) ! 0
                  = 1 / 2 - 1 / 1000 * (1 / (1 + 1 / 10000000))"
    by (simp only: v hat real_sqrt_one)
  from inst v(12) have "data (biases (layers (fst (adam_optimize ?m ?a)) ! 0)) ! 0 =
      data (biases (layers ?m ! 0)) ! 0
      - alpha ?a * (adam_mhat ?a (data (mb ?a ! 0) ! 0) (data (gradBiases (layers ?m ! 0)) ! 0)
                     / sqrt (adam_vhat ?a (data (vb ?a ! 0) ! 0) (data (gradBiases (layers ?m ! 0)) ! 0))
                        + epsilon ?a)"
    by blast
  then have B: "data (biases (layers (fst (adam_optimize ?m ?a)) ! 0)) ! 0
                  = 0 - 1 / 1000 * (1 / 1 + 1 / 10000000)"
    by (simp only: v hat real_sqrt_one)
  from W B show ?thesis by (rule conjI)
qed

section \<open>Training of the critic\<close>

lemma ddpg_train_actor_criticErrors:
  "criticErrors (ddpg_train_actor ddpg) = matrix_fill (criticErrors ddpg) (- 1)"
  by (simp add: ddpg_train_actor_def Let_def split_beta)

lemma select_batch_nth:
  assumes "i < ddpg_batchSize ddpg" "ddpg_batchSize ddpg \<le> length (batchIndices ddpg)"
  shows "batchIndices (ddpg_select_batch ddpg rand) ! i
           = nat (deepc_random_int (rand i) 0 (int (memoryUsed ddpg) - 1))"
proof -
  have "fold (\<lambda>i b. b[id i := nat (deepc_random_int (rand i) 0 (int (memoryUsed ddpg) - 1))])
          [0..<ddpg_batchSize ddpg] (batchIndices ddpg) ! id i
        = nat (deepc_random_int (rand i) 0 (int (memoryUsed ddpg) - 1))"
    using assms by (intro fold_update_nth) simp_all
  then show ?thesis by (simp add: ddpg_select_batch_def)
qed

lemma fold_MATRIX_assign:
  "columns (fold (\<lambda>i ce. MATRIX_assign ce i c (val i)) xs ce) = columns ce
   \<and> rows (fold (\<lambda>i ce. MATRIX_assign ce i c (val i)) xs ce) = rows ce
   \<and> data (fold (\<lambda>i ce. MATRIX_assign ce i c (val i)) xs ce)
       = fold (\<lambda>i d. d[i * columns ce + c := val i]) xs (data ce)"
  by (induction xs arbitrary: ce) (simp_all add: MATRIX_assign_def)

lemma column_write_nth:
  assumes "i < B" "c < columns ce" "B * columns ce \<le> length (data ce)"
  shows "MATRIX (fold (\<lambda>i ce. MATRIX_assign ce i c (val i)) [0..<B] ce) i c = val i"
proof -
  have inj: "inj_on (\<lambda>i. i * columns ce + c) (set [0..<B])"
    using assms(2) by (auto simp: inj_on_def)
  have "i * columns ce + c < B * columns ce"
    using assms(1,2) by (rule row_major_bound)
  then have "fold (\<lambda>i d. d[i * columns ce + c := val i]) [0..<B] (data ce) ! (i * columns ce + c) = val i"
    using inj assms by (intro fold_update_nth[where idx = "\<lambda>i. i * columns ce + c"]) simp_all
  then show ?thesis
    by (simp add: MATRIX_def fold_MATRIX_assign)
qed

lemma ddpg_bellman_cell:
  assumes "i < ddpg_batchSize ddpg" "0 < columns (criticErrors ddpg)"
    and "ddpg_batchSize ddpg * columns (criticErrors ddpg) \<le> length (data (criticErrors ddpg))"
  shows "MATRIX (criticErrors (ddpg_bellman ddpg gamma criticOutput CriticTargetOutput)) i 0 =
          (if MATRIX (memory ddpg) (batchIndices ddpg ! i) (2 * stateSize ddpg + actionSize ddpg + 1) > 0
           then MATRIX criticOutput i 0
           else MATRIX criticOutput i 0
                - (MATRIX (memory ddpg) (batchIndices ddpg ! i) (stateSize ddpg + actionSize ddpg)
                   + gamma * MATRIX CriticTargetOutput i 0))"
proof -
  let ?val = "\<lambda>i. if MATRIX (memory ddpg) (batchIndices ddpg ! i) (2 * stateSize ddpg + actionSize ddpg + 1) > 0
           then MATRIX criticOutput i 0
           else MATRIX criticOutput i 0
                - (MATRIX (memory ddpg) (batchIndices ddpg ! i) (stateSize ddpg + actionSize ddpg)
                   + gamma * MATRIX CriticTargetOutput i 0)"
  have "criticErrors (ddpg_bellman ddpg gamma criticOutput CriticTargetOutput)
          = fold (\<lambda>i ce. MATRIX_assign ce i 0 (?val i)) [0..<ddpg_batchSize ddpg] (criticErrors ddpg)"
    unfolding ddpg_bellman_def Let_def
    by (simp add: if_distrib[of "MATRIX_assign _ _ _", symmetric] cong: if_cong)
  then show ?thesis
    using column_write_nth[OF assms(1,2,3), of ?val] by simp
qed


text \<open>
  C1. When \<^verbatim>\<open>ddpg_train\<close> trains (the memory holds at least a batch), the critic error
  of every batch position \<open>i\<close> is computed from the output \<open>criticOutput\<close> of the critic
  on the stored action and state, the output \<open>CriticTargetOutput\<close> of the target
  critic, and the sampled row of the memory: it is \<open>criticOutput[i]\<close> when the terminal
  flag of the row, in column \<open>2 S + A + 1\<close>, is positive, and
  \<open>criticOutput[i] - (reward + gamma * CriticTargetOutput[i])\<close> otherwise, with the
  reward read from column \<open>S + A\<close>. The back-propagation and the optimizer that follow
  leave the errors as they are.
\<close>

theorem ddpg_train_critic_errors:
  assumes "ddpg_batchSize ddpg \<le> memoryUsed ddpg"
    and "columns (criticErrors ddpg) = 1"
    and "ddpg_batchSize ddpg \<le> length (data (criticErrors ddpg))"
    and "ddpg_batchSize ddpg \<le> length (batchIndices ddpg)"
    and "i < ddpg_batchSize ddpg"
  shows "let s = ddpg_critic_forward (ddpg_train_actor (ddpg_select_batch ddpg rand));
             criticOutput = mlp_output (critic s);
             CriticTargetOutput = mlp_output (criticTarget s);
             sample = nat (deepc_random_int (rand i) 0 (int (memoryUsed ddpg) - 1));
             reward = MATRIX (memory ddpg) sample (stateSize ddpg + actionSize ddpg);
             terminal = MATRIX (memory ddpg) sample (2 * stateSize ddpg + actionSize ddpg + 1)
         in MATRIX (criticErrors (ddpg_train ddpg gamma rand)) i 0 =
              (if terminal > 0 then MATRIX criticOutput i 0
               else MATRIX criticOutput i 0 - (reward + gamma * MATRIX CriticTargetOutput i 0))"
proof -
  define s where "s = ddpg_critic_forward (ddpg_train_actor (ddpg_select_batch ddpg rand))"
  have ce: "criticErrors s = matrix_fill (criticErrors ddpg) (- 1)"
    by (simp add: s_def ddpg_train_actor_criticErrors)
  have fr: "memory s = memory ddpg" "stateSize s = stateSize ddpg" "actionSize s = actionSize ddpg"
    "ddpg_batchSize s = ddpg_batchSize ddpg"
    "batchIndices s = batchIndices (ddpg_select_batch ddpg rand)"
    by (simp_all add: s_def)
  have idx: "batchIndices (ddpg_select_batch ddpg rand) ! i
               = nat (deepc_random_int (rand i) 0 (int (memoryUsed ddpg) - 1))"
    using assms(4,5) by (simp add: select_batch_nth)
  have train: "ddpg_train ddpg gamma rand
                 = ddpg_critic_update (ddpg_bellman s gamma (mlp_output (critic s))
                                         (mlp_output (criticTarget s)))"
    using assms(1) by (simp add: ddpg_train_def Let_def s_def)
  have "MATRIX (criticErrors (ddpg_train ddpg gamma rand)) i 0
          = MATRIX (criticErrors (ddpg_bellman s gamma (mlp_output (critic s))
                                         (mlp_output (criticTarget s)))) i 0"
    by (simp add: train)
  also have "\<dots> = (if MATRIX (memory s) (batchIndices s ! i) (2 * stateSize s + actionSize s + 1) > 0
           then MATRIX (mlp_output (critic s)) i 0
           else MATRIX (mlp_output (critic s)) i 0
                - (MATRIX (memory s) (batchIndices s ! i) (stateSize s + actionSize s)
                   + gamma * MATRIX (mlp_output (criticTarget s)) i 0))"
    using assms(2,3,5) by (intro ddpg_bellman_cell) (simp_all add: fr ce)
  finally show ?thesis
    unfolding Let_def s_def[symmetric] by (simp only: fr idx)
qed


theorem ddpg_train_critic_errors_witness:
  "MATRIX (criticErrors (ddpg_train
       (example_ddpg\<lparr>memoryUsed := 1, memoryIdx := 1,
          memory := \<lparr>rows = 4, columns = 7,
                      data = [1 / 2, 1 / 10, 3 / 10, - 1 / 5, 3 / 5, 1 / 5, 0] @ replicate 21 0\<rparr>\<rparr>)
       (99 / 100) (\<lambda>n. 0))) 0 0
   = MATRIX (mlp_output (critic (ddpg_critic_forward (ddpg_train_actor (ddpg_select_batch
       (example_ddpg\<lparr>memoryUsed := 1, memoryIdx := 1,
          memory := \<lparr>rows = 4, columns = 7,
                      data = [1 / 2, 1 / 10, 3 / 10, - 1 / 5, 3 / 5, 1 / 5, 0] @ replicate 21 0\<rparr>\<rparr>)
       (\<lambda>n. 0)))))) 0 0
     - (- 1 / 5 + 99 / 100 *
         MATRIX (mlp_output (criticTarget (ddpg_critic_forward (ddpg_train_actor (ddpg_select_batch
           (example_ddpg\<lparr>memoryUsed := 1, memoryIdx := 1,
              memory := \<lparr>rows = 4, columns = 7,
                          data = [1 / 2, 1 / 10, 3 / 10, - 1 / 5, 3 / 5, 1 / 5, 0] @ replicate 21 0\<rparr>\<rparr>)
           (\<lambda>n. 0)))))) 0 0)"
proof -
  let ?d = "example_ddpg\<lparr>memoryUsed := 1, memoryIdx := 1,
          memory := \<lparr>rows = 4, columns = 7,
                      data = [1 / 2, 1 / 10, 3 / 10, - 1 / 5, 3 / 5, 1 / 5, 0] @ replicate 21 0\<rparr>\<rparr>"
  have h: "ddpg_batchSize ?d \<le> memoryUsed ?d" "columns (criticErrors ?d) = 1"
    "ddpg_batchSize ?d \<le> length (data (criticErrors ?d))"
    "ddpg_batchSize ?d \<le> length (batchIndices ?d)" "0 < ddpg_batchSize ?d"
    by (simp_all add: example_ddpg_def zeros_def)
  have v: "nat (deepc_random_int 0 0 (int (memoryUsed ?d) - 1)) = 0"
    "stateSize ?d + actionSize ?d = 3" "2 * stateSize ?d + actionSize ?d + 1 = 6"
    "MATRIX (memory ?d) 0 3 = - 1 / 5" "MATRIX (memory ?d) 0 6 = 0"
    by (simp_all add: example_ddpg_def deepc_random_int_def MATRIX_def)
  show ?thesis
    using ddpg_train_critic_errors[OF h, of "\<lambda>n. 0" "99 / 100"]
    unfolding Let_def v by simp
qed

section \<open>Saving and loading a policy\<close>

lemma fwrite_unbounded:
  "capacity file = \<infinity> \<Longrightarrow>
   fwrite xs file = (length xs, file\<lparr>contents := contents file @ xs,
                                    position := position file + length xs\<rparr>)"
  by (simp add: fwrite_def Let_def)

lemma map_nth_upt: "length xs = n \<Longrightarrow> map (\<lambda>i. f (xs ! i)) [0..<n] = map f xs"
  by (auto intro: nth_equalityI)

lemma matrix_write_unbounded:
  assumes "capacity file = \<infinity>" "length (data matrix) = rows matrix * columns matrix"
  shows "matrix_write matrix file =
           (0, file\<lparr>contents := contents file @ matrix_format matrix,
                    position := position file + length (matrix_format matrix)\<rparr>)"
  using assms
  by (simp add: matrix_write_def fwrite_unbounded matrix_format_def map_nth_upt)

lemma write_layers_unbounded:
  assumes "capacity f = \<infinity>"
    and "\<forall>i\<in>set ns. length (data (weights (layers mlp ! i)))
                        = rows (weights (layers mlp ! i)) * columns (weights (layers mlp ! i))
                    \<and> length (data (biases (layers mlp ! i)))
                        = rows (biases (layers mlp ! i)) * columns (biases (layers mlp ! i))"
  shows "write_layers ns mlp f =
           (0, f\<lparr>contents := contents f @ weights_format mlp ns,
                 position := position f + length (weights_format mlp ns)\<rparr>)"
  using assms
proof (induction ns arbitrary: f)
  case Nil
  show ?case by (simp add: weights_format_def)
next
  case (Cons i ns)
  show ?case
    using Cons.prems Cons.IH
    by (simp add: matrix_write_unbounded weights_format_def)
qed

lemma drop_advance: "drop p xs = ys @ zs \<Longrightarrow> drop (p + length ys) xs = zs"
proof -
  assume a: "drop p xs = ys @ zs"
  have "drop (p + length ys) xs = drop (length ys) (drop p xs)"
    by (simp add: add.commute)
  then show ?thesis using a by simp
qed

lemma fread_int_head:
  "drop (position f) (contents f) = I32 v # rest \<Longrightarrow>
   fread_int f = (Some v, f\<lparr>position := position f + 1\<rparr>)"
  by (simp add: fread_int_def)

lemma the_F64s_map [simp]: "the_F64s (map F64 xs) = xs"
  by (induction xs) simp_all

lemma fread_doubles_run:
  "drop (position f) (contents f) = map F64 xs @ rest \<Longrightarrow>
   fread_doubles (length xs) f = (xs, f\<lparr>position := position f + length xs\<rparr>)"
  by (simp add: fread_doubles_def Let_def)

lemma matrix_read_format:
  assumes "drop (position f) (contents f) = matrix_format m @ rest" "parameter_matrix m"
  shows "matrix_read f = ((int (rows m), int (columns m), Some (data m)),
                          f\<lparr>position := position f + length (matrix_format m)\<rparr>)"
proof -
  let ?f1 = "f\<lparr>position := Suc (position f)\<rparr>"
  let ?f2 = "f\<lparr>position := Suc (Suc (position f))\<rparr>"
  have d0: "drop (position f) (contents f)
              = I32 (int (rows m)) # (I32 (int (columns m)) # map F64 (data m) @ rest)"
    using assms(1) by (simp add: matrix_format_def)
  have r1: "fread_int f = (Some (int (rows m)), ?f1)"
    using fread_int_head[OF d0] by simp
  have d1: "drop (position ?f1) (contents ?f1) = I32 (int (columns m)) # (map F64 (data m) @ rest)"
    using drop_advance[of "position f" "contents f" "[I32 (int (rows m))]"] d0 by simp
  have r2: "fread_int ?f1 = (Some (int (columns m)), ?f2)"
    using fread_int_head[OF d1] by simp
  have d2: "drop (position ?f2) (contents ?f2) = map F64 (data m) @ rest"
    using drop_advance[of "position ?f1" "contents ?f1" "[I32 (int (columns m))]"] d1 by simp
  have r3: "fread_doubles (length (data m)) ?f2
              = (data m, f\<lparr>position := Suc (Suc (position f + length (data m)))\<rparr>)"
    using fread_doubles_run[OF d2] by simp
  have "0 < int (rows m * columns m)"
    using assms(2) unfolding parameter_matrix_def by linarith
  then have pos: "\<not> int (rows m) * int (columns m) \<le> 0" by simp
  have n: "nat (int (rows m) * int (columns m)) = length (data m)"
    "int (length (data m)) = int (rows m) * int (columns m)"
    using assms(2) by (simp_all add: parameter_matrix_def nat_mult_distrib flip: of_nat_mult)
  show ?thesis
    unfolding matrix_read_def
    by (simp add: r1 r2 n pos r3 Let_def matrix_format_def del: of_nat_mult)
qed

lemma matrix_copy_whole:
  assumes "length (data dst) = rows dst * columns dst" "length (data src) = length (data dst)"
  shows "matrix_copy dst src = dst\<lparr>data := data src\<rparr>"
proof -
  have "data (matrix_copy dst src) = data src"
    using assms by (intro nth_equalityI) (simp_all add: matrix_copy_nth)
  then show ?thesis by (simp add: matrix_copy_def)
qed

lemma weights_format_Cons:
  "weights_format src (i # ns) =
     matrix_format (weights (layers src ! i)) @ matrix_format (biases (layers src ! i))
     @ weights_format src ns"
  by (simp add: weights_format_def)

lemma loaded_layers_Cons:
  "loaded_layers src (i # ns) ls =
     loaded_layers src ns
       (ls[i := (ls ! i)\<lparr>weights := (weights (ls ! i))\<lparr>data := data (weights (layers src ! i))\<rparr>,
                         biases := (biases (ls ! i))\<lparr>data := data (biases (layers src ! i))\<rparr>\<rparr>])"
  by (simp add: loaded_layers_def)

lemma read_layers_step:
  assumes f: "drop (position f) (contents f) = weights_format src (i # ns) @ rest"
    and i: "i < length (layers mlp)"
    and src: "parameter_matrix (weights (layers src ! i))" "parameter_matrix (biases (layers src ! i))"
    and w: "rows (weights (layers mlp ! i)) = rows (weights (layers src ! i))"
      "columns (weights (layers mlp ! i)) = columns (weights (layers src ! i))"
      "length (data (weights (layers mlp ! i))) = rows (weights (layers mlp ! i)) * columns (weights (layers mlp ! i))"
    and b: "rows (biases (layers mlp ! i)) = rows (biases (layers src ! i))"
      "columns (biases (layers mlp ! i)) = columns (biases (layers src ! i))"
      "length (data (biases (layers mlp ! i))) = rows (biases (layers mlp ! i)) * columns (biases (layers mlp ! i))"
  shows "read_layers (i # ns) mlp f =
           read_layers ns
             (mlp\<lparr>layers := (layers mlp)[i := (layers mlp ! i)
                  \<lparr>weights := (weights (layers mlp ! i))\<lparr>data := data (weights (layers src ! i))\<rparr>,
                   biases := (biases (layers mlp ! i))\<lparr>data := data (biases (layers src ! i))\<rparr>\<rparr>]\<rparr>)
             (f\<lparr>position := position f + length (matrix_format (weights (layers src ! i)))
                                + length (matrix_format (biases (layers src ! i)))\<rparr>)"
    and "drop (position f + length (matrix_format (weights (layers src ! i)))
                 + length (matrix_format (biases (layers src ! i)))) (contents f)
           = weights_format src ns @ rest"
proof -
  let ?W = "weights (layers src ! i)" and ?B = "biases (layers src ! i)"
  let ?f1 = "f\<lparr>position := position f + length (matrix_format ?W)\<rparr>"
  let ?f2 = "f\<lparr>position := position f + length (matrix_format ?W) + length (matrix_format ?B)\<rparr>"
  have d0: "drop (position f) (contents f)
              = matrix_format ?W @ (matrix_format ?B @ weights_format src ns @ rest)"
    using f by (simp add: weights_format_Cons)
  have r1: "matrix_read f = ((int (rows ?W), int (columns ?W), Some (data ?W)), ?f1)"
    using d0 src(1) by (rule matrix_read_format)
  have d1: "drop (position ?f1) (contents ?f1) = matrix_format ?B @ (weights_format src ns @ rest)"
    using drop_advance[OF d0] by simp
  have r2: "matrix_read ?f1 = ((int (rows ?B), int (columns ?B), Some (data ?B)), ?f2)"
    using matrix_read_format[OF d1 src(2)] by simp
  show d2: "drop (position f + length (matrix_format ?W) + length (matrix_format ?B)) (contents f)
          = weights_format src ns @ rest"
    using drop_advance[OF d1] by simp
  have cw: "matrix_copy (weights (layers mlp ! i)) \<lparr>rows = rows ?W, columns = columns ?W, data = data ?W\<rparr>
              = (weights (layers mlp ! i))\<lparr>data := data ?W\<rparr>"
    using w src(1)
      matrix_copy_whole[of "weights (layers mlp ! i)" "\<lparr>rows = rows ?W, columns = columns ?W, data = data ?W\<rparr>"]
    by (simp add: parameter_matrix_def)
  have cb: "matrix_copy (biases (layers mlp ! i)) \<lparr>rows = rows ?B, columns = columns ?B, data = data ?B\<rparr>
              = (biases (layers mlp ! i))\<lparr>data := data ?B\<rparr>"
    using b src(2)
      matrix_copy_whole[of "biases (layers mlp ! i)" "\<lparr>rows = rows ?B, columns = columns ?B, data = data ?B\<rparr>"]
    by (simp add: parameter_matrix_def)
  show "read_layers (i # ns) mlp f =
           read_layers ns
             (mlp\<lparr>layers := (layers mlp)[i := (layers mlp ! i)
                  \<lparr>weights := (weights (layers mlp ! i))\<lparr>data := data ?W\<rparr>,
                   biases := (biases (layers mlp ! i))\<lparr>data := data ?B\<rparr>\<rparr>]\<rparr>) ?f2"
    using i w(1,2) b(1,2)
    by (simp add: r1 r2 cw cb Let_def)
qed

lemma layer_matches_cong:
  "layers mlp' ! j = layers mlp ! j \<Longrightarrow> length (layers mlp') = length (layers mlp) \<Longrightarrow>
   layer_matches src mlp j \<Longrightarrow> layer_matches src mlp' j"
  by (simp add: layer_matches_def)

lemma read_layers_format:
  assumes "drop (position f) (contents f) = weights_format src ns @ rest" "distinct ns"
    and "\<forall>i\<in>set ns. layer_matches src mlp i"
  shows "read_layers ns mlp f =
           (0, mlp\<lparr>layers := loaded_layers src ns (layers mlp)\<rparr>,
               f\<lparr>position := position f + length (weights_format src ns)\<rparr>)"
  using assms
proof (induction ns arbitrary: mlp f)
  case Nil
  show ?case by (simp add: loaded_layers_def weights_format_def)
next
  case (Cons i ns)
  let ?l = "(layers mlp ! i)
        \<lparr>weights := (weights (layers mlp ! i))\<lparr>data := data (weights (layers src ! i))\<rparr>,
         biases := (biases (layers mlp ! i))\<lparr>data := data (biases (layers src ! i))\<rparr>\<rparr>"
  let ?mlp = "mlp\<lparr>layers := (layers mlp)[i := ?l]\<rparr>"
  let ?f = "f\<lparr>position := position f + length (matrix_format (weights (layers src ! i)))
                                + length (matrix_format (biases (layers src ! i)))\<rparr>"
  from Cons.prems(3) have "layer_matches src mlp i" by simp
  then have hi: "i < length (layers mlp)"
    "parameter_matrix (weights (layers src ! i))" "parameter_matrix (biases (layers src ! i))"
    "rows (weights (layers mlp ! i)) = rows (weights (layers src ! i))"
    "columns (weights (layers mlp ! i)) = columns (weights (layers src ! i))"
    "length (data (weights (layers mlp ! i)))
               = rows (weights (layers mlp ! i)) * columns (weights (layers mlp ! i))"
    "rows (biases (layers mlp ! i)) = rows (biases (layers src ! i))"
    "columns (biases (layers mlp ! i)) = columns (biases (layers src ! i))"
    "length (data (biases (layers mlp ! i)))
               = rows (biases (layers mlp ! i)) * columns (biases (layers mlp ! i))"
    by (simp_all add: layer_matches_def)
  note step = read_layers_step[OF Cons.prems(1) hi]
  have d: "drop (position ?f) (contents ?f) = weights_format src ns @ rest"
    using step(2) by simp
  have rest_ok: "\<forall>j\<in>set ns. layer_matches src ?mlp j"
  proof
    fix j assume j: "j \<in> set ns"
    then have "j \<noteq> i" using Cons.prems(2) by auto
    then have "layers ?mlp ! j = layers mlp ! j" by simp
    moreover have "length (layers ?mlp) = length (layers mlp)" by simp
    moreover have "layer_matches src mlp j" using Cons.prems(3) j by simp
    ultimately show "layer_matches src ?mlp j" by (rule layer_matches_cong)
  qed
  have dist: "distinct ns" using Cons.prems(2) by simp
  have "read_layers (i # ns) mlp f = read_layers ns ?mlp ?f" by (rule step(1))
  also have "\<dots> = (0, ?mlp\<lparr>layers := loaded_layers src ns (layers ?mlp)\<rparr>,
                        ?f\<lparr>position := position ?f + length (weights_format src ns)\<rparr>)"
    by (rule Cons.IH[OF d dist rest_ok])
  also have "\<dots> = (0, mlp\<lparr>layers := loaded_layers src (i # ns) (layers mlp)\<rparr>,
               f\<lparr>position := position f + length (weights_format src (i # ns))\<rparr>)"
    by (simp add: loaded_layers_Cons weights_format_Cons add.assoc)
  finally show ?case .
qed

lemma loaded_layers_length [simp]: "length (loaded_layers src ns ls) = length ls"
  unfolding loaded_layers_def by (induction ns arbitrary: ls) simp_all

lemma loaded_layers_other: "i \<notin> set ns \<Longrightarrow> loaded_layers src ns ls ! i = ls ! i"
  unfolding loaded_layers_def by (induction ns arbitrary: ls) auto

lemma loaded_layers_nth:
  assumes "i \<in> set ns" "distinct ns" "i < length ls"
  shows "loaded_layers src ns ls ! i =
           (ls ! i)\<lparr>weights := (weights (ls ! i))\<lparr>data := data (weights (layers src ! i))\<rparr>,
                    biases := (biases (ls ! i))\<lparr>data := data (biases (layers src ! i))\<rparr>\<rparr>"
  using assms
proof (induction ns arbitrary: ls)
  case Nil
  then show ?case by simp
next
  case (Cons j ns)
  show ?case
  proof (cases "i = j")
    case True
    then have "i \<notin> set ns" using Cons.prems(2) by simp
    then show ?thesis
      using True Cons.prems(3) by (simp add: loaded_layers_Cons loaded_layers_other)
  next
    case False
    then have "i \<in> set ns" using Cons.prems(1) by simp
    then show ?thesis
      using False Cons.prems Cons.IH by (simp add: loaded_layers_Cons)
  qed
qed

lemma mlp_write_weights_unbounded:
  assumes "capacity f = \<infinity>" "parameters_ok mlp"
  shows "mlp_write_weights mlp f =
           (0, f\<lparr>contents := contents f @ weights_format mlp [0..<depth mlp + 1],
                 position := position f + length (weights_format mlp [0..<depth mlp + 1])\<rparr>)"
  unfolding mlp_write_weights_def
  using assms by (intro write_layers_unbounded) (simp_all add: parameters_ok_def parameter_matrix_def)

lemma layer_matches_architecture:
  assumes "parameters_ok src" "parameters_ok mlp" "same_architecture src mlp" "i \<le> depth mlp"
  shows "layer_matches src mlp i"
  using assms
  by (auto simp: layer_matches_def parameters_ok_def same_architecture_def parameter_matrix_def)

lemma mlp_read_weights_format:
  assumes "drop (position f) (contents f) = weights_format src [0..<depth src + 1] @ rest"
    and "parameters_ok src" "parameters_ok mlp" "same_architecture src mlp"
  shows "mlp_read_weights mlp f =
           (0, mlp\<lparr>layers := loaded_layers src [0..<depth src + 1] (layers mlp)\<rparr>,
               f\<lparr>position := position f + length (weights_format src [0..<depth src + 1])\<rparr>)"
proof -
  have d: "depth mlp = depth src" using assms(4) by (simp add: same_architecture_def)
  have "\<forall>i\<in>set [0..<depth src + 1]. layer_matches src mlp i"
    using layer_matches_architecture[OF assms(2,3,4)] d by simp
  then show ?thesis
    unfolding mlp_read_weights_def d
    using assms(1) by (intro read_layers_format) simp_all
qed

lemma loaded_parameters:
  assumes "i \<le> depth src" "depth src < length ls"
  shows "data (weights (loaded_layers src [0..<depth src + 1] ls ! i)) = data (weights (layers src ! i))"
    and "data (biases (loaded_layers src [0..<depth src + 1] ls ! i)) = data (biases (layers src ! i))"
proof -
  have "i \<in> set [0..<depth src + 1]" "distinct [0..<depth src + 1]" "i < length ls"
    using assms by auto
  then have "loaded_layers src [0..<depth src + 1] ls ! i =
           (ls ! i)\<lparr>weights := (weights (ls ! i))\<lparr>data := data (weights (layers src ! i))\<rparr>,
                    biases := (biases (ls ! i))\<lparr>data := data (biases (layers src ! i))\<rparr>\<rparr>"
    by (rule loaded_layers_nth)
  then show "data (weights (loaded_layers src [0..<depth src + 1] ls ! i)) = data (weights (layers src ! i))"
    and "data (biases (loaded_layers src [0..<depth src + 1] ls ! i)) = data (biases (layers src ! i))"
    by simp_all
qed

text \<open>
  C8, as stated for every agent, fails for an agent with an empty weight matrix:
  \<^verbatim>\<open>matrix_write\<close> writes a matrix without cells and returns 0, but \<^verbatim>\<open>matrix_read\<close> gives
  up when \<open>rows * columns \<le> 0\<close>, so that loading the saved policy into an agent of the
  same architecture returns -1.
\<close>

theorem policy_round_trip_empty_layer:
  "fst (ddpg_save_policy (example_ddpg\<lparr>actor := example_bottleneck_mlp\<rparr>)
          (Some \<lparr>contents = [], position = 0, capacity = \<infinity>\<rparr>)) = 0
   \<and> fst (ddpg_load_policy (example_ddpg\<lparr>actor := example_bottleneck_mlp\<rparr>)
          (reopen (snd (ddpg_save_policy (example_ddpg\<lparr>actor := example_bottleneck_mlp\<rparr>)
                          (Some \<lparr>contents = [], position = 0, capacity = \<infinity>\<rparr>))))) = - 1"
proof -
  have upt: "[0..<Suc (Suc 0)] = [0, Suc 0]" "[0..<Suc 0] = [0]" "[0..<3] = [0, 1, 2]"
    by (simp_all add: upt_rec)
  have a: "mlp_write_weights example_bottleneck_mlp \<lparr>contents = [], position = 0, capacity = \<infinity>\<rparr>
             = (0, \<lparr>contents = [I32 0, I32 2, I32 0, I32 1, I32 1, I32 0, I32 1, I32 1, F64 0],
                   position = 9, capacity = \<infinity>\<rparr>)"
    by (simp add: mlp_write_weights_def example_bottleneck_mlp_def example_layer_def zeros_def
        matrix_write_def fwrite_def Let_def upt del: upt_Suc)
  have c: "mlp_write_weights (critic example_ddpg)
             \<lparr>contents = [I32 0, I32 2, I32 0, I32 1, I32 1, I32 0, I32 1, I32 1, F64 0],
                   position = 9, capacity = \<infinity>\<rparr>
             = (0, \<lparr>contents = [I32 0, I32 2, I32 0, I32 1, I32 1, I32 0, I32 1, I32 1, F64 0,
                               I32 1, I32 3, F64 (1 / 4), F64 (1 / 2), F64 (- 1 / 2), I32 1, I32 1, F64 0],
                   position = 17, capacity = \<infinity>\<rparr>)"
    by (simp add: mlp_write_weights_def example_ddpg_def example_mlp_def example_layer_def zeros_def
        matrix_write_def fwrite_def Let_def upt del: upt_Suc)
  have save: "ddpg_save_policy (example_ddpg\<lparr>actor := example_bottleneck_mlp\<rparr>)
          (Some \<lparr>contents = [], position = 0, capacity = \<infinity>\<rparr>)
       = (0, Some \<lparr>contents = [I32 0, I32 2, I32 0, I32 1, I32 1, I32 0, I32 1, I32 1, F64 0,
                               I32 1, I32 3, F64 (1 / 4), F64 (1 / 2), F64 (- 1 / 2), I32 1, I32 1, F64 0],
                   position = 17, capacity = \<infinity>\<rparr>)"
    by (simp add: ddpg_save_policy_def a c)
  have r: "fst (mlp_read_weights example_bottleneck_mlp
             \<lparr>contents = [I32 0, I32 2, I32 0, I32 1, I32 1, I32 0, I32 1, I32 1, F64 0,
                               I32 1, I32 3, F64 (1 / 4), F64 (1 / 2), F64 (- 1 / 2), I32 1, I32 1, F64 0],
                   position = 0, capacity = \<infinity>\<rparr>) = - 1"
    by (simp add: mlp_read_weights_def example_bottleneck_mlp_def example_layer_def zeros_def
        matrix_read_def fread_int_def Let_def upt del: upt_Suc)
  show ?thesis
    using r by (simp add: save reopen_def ddpg_load_policy_def split_beta Let_def)
qed

text \<open>
  C8, amended. Let the weights and biases of the actor and the critic of two agents be
  matrices with at least one cell, the two agents have identical architectures, and
  the device not fill. Then \<^verbatim>\<open>ddpg_save_policy\<close> of the first agent into an empty file
  returns 0, \<^verbatim>\<open>ddpg_load_policy\<close> of the second agent from the file returns 0, and
  afterwards the weights and biases of every layer of the actor and of the critic of the
  second agent hold the cells of the first agent's. The load changes the actor and the
  critic of the second agent only: its target networks and its replay memory are as
  before.
\<close>

theorem policy_round_trip:
  assumes "contents f = []" "capacity f = \<infinity>"
    and "parameters_ok (actor ddpg1)" "parameters_ok (critic ddpg1)"
    and "parameters_ok (actor ddpg2)" "parameters_ok (critic ddpg2)"
    and "same_architecture (actor ddpg1) (actor ddpg2)"
    and "same_architecture (critic ddpg1) (critic ddpg2)"
  shows "let saved = ddpg_save_policy ddpg1 (Some f);
             loaded = ddpg_load_policy ddpg2 (reopen (snd saved))
         in fst saved = 0 \<and> fst loaded = 0
          \<and> (\<forall>i \<le> depth (actor ddpg1).
                data (weights (layers (actor (snd loaded)) ! i)) = data (weights (layers (actor ddpg1) ! i))
              \<and> data (biases (layers (actor (snd loaded)) ! i)) = data (biases (layers (actor ddpg1) ! i)))
          \<and> (\<forall>i \<le> depth (critic ddpg1).
                data (weights (layers (critic (snd loaded)) ! i)) = data (weights (layers (critic ddpg1) ! i))
              \<and> data (biases (layers (critic (snd loaded)) ! i)) = data (biases (layers (critic ddpg1) ! i)))
          \<and> snd loaded = ddpg2\<lparr>actor := actor (snd loaded), critic := critic (snd loaded)\<rparr>
          \<and> actorTarget (snd loaded) = actorTarget ddpg2
          \<and> criticTarget (snd loaded) = criticTarget ddpg2
          \<and> memory (snd loaded) = memory ddpg2"
proof -
  define A where "A = weights_format (actor ddpg1) [0..<depth (actor ddpg1) + 1]"
  define C where "C = weights_format (critic ddpg1) [0..<depth (critic ddpg1) + 1]"
  define LA where "LA = loaded_layers (actor ddpg1) [0..<depth (actor ddpg1) + 1] (layers (actor ddpg2))"
  define LC where "LC = loaded_layers (critic ddpg1) [0..<depth (critic ddpg1) + 1] (layers (critic ddpg2))"
  let ?f1 = "f\<lparr>contents := contents f @ A, position := position f + length A\<rparr>"
  let ?f2 = "?f1\<lparr>contents := contents ?f1 @ C, position := position ?f1 + length C\<rparr>"
  have w1: "mlp_write_weights (actor ddpg1) f = (0, ?f1)"
    unfolding A_def using assms(2,3) by (rule mlp_write_weights_unbounded)
  have "capacity ?f1 = \<infinity>" using assms(2) by simp
  then have w2: "mlp_write_weights (critic ddpg1) ?f1 = (0, ?f2)"
    unfolding C_def using assms(4) by (rule mlp_write_weights_unbounded)
  have save: "ddpg_save_policy ddpg1 (Some f) = (0, Some ?f2)"
    by (simp add: ddpg_save_policy_def w1[simplified] w2[simplified])
  let ?g = "?f2\<lparr>position := 0\<rparr>"
  have g: "reopen (snd (ddpg_save_policy ddpg1 (Some f))) = Some ?g"
    by (simp add: save reopen_def)
  have dg: "drop (position ?g) (contents ?g) = A @ C"
    using assms(1) by simp
  let ?g1 = "?g\<lparr>position := position ?g + length A\<rparr>"
  have r1: "mlp_read_weights (actor ddpg2) ?g = (0, (actor ddpg2)\<lparr>layers := LA\<rparr>, ?g1)"
    unfolding LA_def using dg[unfolded A_def] assms(3,5,7) unfolding A_def
    by (rule mlp_read_weights_format)
  have dg1: "drop (position ?g1) (contents ?g1) = C @ []"
    using assms(1) by simp
  have r2: "mlp_read_weights (critic ddpg2) ?g1
              = (0, (critic ddpg2)\<lparr>layers := LC\<rparr>, ?g1\<lparr>position := position ?g1 + length C\<rparr>)"
    unfolding LC_def using dg1[unfolded C_def] assms(4,6,8) unfolding C_def
    by (rule mlp_read_weights_format)
  have load: "ddpg_load_policy ddpg2 (Some ?g)
                = (0, ddpg2\<lparr>actor := (actor ddpg2)\<lparr>layers := LA\<rparr>,
                             critic := (critic ddpg2)\<lparr>layers := LC\<rparr>\<rparr>)"
    by (simp add: ddpg_load_policy_def r1[simplified] r2[simplified])
  have la: "depth (actor ddpg1) < length (layers (actor ddpg2))"
    using assms(5,7) by (simp add: parameters_ok_def same_architecture_def)
  have lc: "depth (critic ddpg1) < length (layers (critic ddpg2))"
    using assms(6,8) by (simp add: parameters_ok_def same_architecture_def)
  have pa: "data (weights (LA ! i)) = data (weights (layers (actor ddpg1) ! i))
          \<and> data (biases (LA ! i)) = data (biases (layers (actor ddpg1) ! i))"
    if "i \<le> depth (actor ddpg1)" for i
    unfolding LA_def using loaded_parameters[OF that la] by blast
  have pc: "data (weights (LC ! i)) = data (weights (layers (critic ddpg1) ! i))
          \<and> data (biases (LC ! i)) = data (biases (layers (critic ddpg1) ! i))"
    if "i \<le> depth (critic ddpg1)" for i
    unfolding LC_def using loaded_parameters[OF that lc] by blast
  show ?thesis
    unfolding Let_def g load using pa pc by (simp add: save)
qed

theorem policy_round_trip_witness:
  "fst (ddpg_save_policy example_ddpg (Some \<lparr>contents = [], position = 0, capacity = \<infinity>\<rparr>)) = 0
   \<and> fst (ddpg_load_policy
            (example_ddpg\<lparr>actor := example_mlp 2 1 1 [0, 0] ACTIVATION_TANH,
                          critic := example_mlp 3 1 1 [0, 0, 0] ACTIVATION_LINEAR\<rparr>)
            (reopen (snd (ddpg_save_policy example_ddpg
                            (Some \<lparr>contents = [], position = 0, capacity = \<infinity>\<rparr>))))) = 0
   \<and> data (weights (layers (actor (snd (ddpg_load_policy
            (example_ddpg\<lparr>actor := example_mlp 2 1 1 [0, 0] ACTIVATION_TANH,
                          critic := example_mlp 3 1 1 [0, 0, 0] ACTIVATION_LINEAR\<rparr>)
            (reopen (snd (ddpg_save_policy example_ddpg
                            (Some \<lparr>contents = [], position = 0, capacity = \<infinity>\<rparr>))))))) ! 0))
       = [1 / 2, - 1 / 4]"
proof -
  let ?d2 = "example_ddpg\<lparr>actor := example_mlp 2 1 1 [0, 0] ACTIVATION_TANH,
                          critic := example_mlp 3 1 1 [0, 0, 0] ACTIVATION_LINEAR\<rparr>"
  let ?f = "\<lparr>contents = [], position = 0, capacity = \<infinity>\<rparr>"
  have h: "contents ?f = []" "capacity ?f = \<infinity>"
    "parameters_ok (actor example_ddpg)" "parameters_ok (critic example_ddpg)"
    "parameters_ok (actor ?d2)" "parameters_ok (critic ?d2)"
    "same_architecture (actor example_ddpg) (actor ?d2)"
    "same_architecture (critic example_ddpg) (critic ?d2)"
    by (simp_all add: example_ddpg_def example_mlp_def example_layer_def zeros_def
        parameters_ok_def parameter_matrix_def same_architecture_def)
  have v: "data (weights (layers (actor example_ddpg) ! 0)) = [1 / 2, - 1 / 4]"
    "(0::nat) \<le> depth (actor example_ddpg)"
    by (simp_all add: example_ddpg_def example_mlp_def example_layer_def)
  note inst = policy_round_trip[OF h, unfolded Let_def]
  from inst v(2) have "data (weights (layers (actor (snd (ddpg_load_policy ?d2
            (reopen (snd (ddpg_save_policy example_ddpg (Some ?f))))))) ! 0))
       = data (weights (layers (actor example_ddpg) ! 0))"
    by blast
  with inst show ?thesis unfolding v(1) by blast
qed

end
